theory Spec2Isabelle
  imports Main "HOL-Library.Word"
begin

section \<open>Sprite extraction from Imagexcel .SPR archives (imagexcel_decode.c)\<close>

text \<open>
  A shallow embedding of \<^verbatim>\<open>src/imagexcel_decode.c\<close>. The C functions keep their names.
  Everything the program does to its surroundings (files, descriptors, the heap allocator,
  the two console streams) is a field of the record \<open>world\<close>, which every function takes
  and returns.
\<close>

subsection \<open>Constants and data\<close>

type_synonym byte = "8 word"
type_synonym path = string

definition MODEX_PLANES :: nat where
  "MODEX_PLANES = 4"

definition PALETTE_DATA_OFFSET :: nat where
  "PALETTE_DATA_OFFSET = 13"

definition PALETTE_SIZE_BYTES :: nat where
  "PALETTE_SIZE_BYTES = 768"

definition MAX_FILENAME_LEN :: nat where
  "MAX_FILENAME_LEN = 32"

record width_height_pair =
  width :: byte
  height :: byte

record palette_entry =
  r :: byte
  g :: byte
  b :: byte

text \<open>
  The program views a byte buffer as an array of structs twice: \<open>main\<close> casts the 768
  palette bytes to \<open>palette_entry*\<close>, and \<open>decode_spr\<close> reads the directory bytes straight
  into a \<open>width_height_pair\<close> array. Both structs hold \<open>uint8_t\<close> fields only, so element
  \<open>i\<close> is the bytes \<open>3i, 3i+1, 3i+2\<close> (or \<open>2i, 2i+1\<close>). Bytes past the last whole
  element belong to no element.
\<close>

fun as_palette :: "byte list \<Rightarrow> palette_entry list" where
  "as_palette (x # y # z # bs) = \<lparr>r = x, g = y, b = z\<rparr> # as_palette bs"
| "as_palette bs = []"

fun as_pairs :: "byte list \<Rightarrow> width_height_pair list" where
  "as_pairs (x # y # bs) = \<lparr>width = x, height = y\<rparr> # as_pairs bs"
| "as_pairs bs = []"

subsection \<open>Formatted output\<close>

text \<open>
  The conversions of \<open>printf\<close> the program uses, for the non-negative values it prints:
  \<open>%d\<close> is \<open>dec\<close>, \<open>%03d\<close> is \<open>dec03\<close> (zero-padded to at least three digits).
  \<open>digit\<close> is applied to values below 10 only. File contents are bytes, so a text is
  written as the codes of its characters.
\<close>

definition digit :: "nat \<Rightarrow> char" where
  "digit n = ''0123456789'' ! n"

function dec :: "nat \<Rightarrow> string" where
  "dec n = (if n < 10 then [digit n] else dec (n div 10) @ [digit (n mod 10)])"
  by pat_completeness auto
termination
  by (relation "measure id") auto

definition dec03 :: "nat \<Rightarrow> string" where
  "dec03 n = replicate (3 - length (dec n)) (CHR ''0'') @ dec n"

definition newline :: string where
  "newline = [CHR 0x0A]"

definition bytes_of :: "string \<Rightarrow> byte list" where
  "bytes_of s = map of_char s"

subsection \<open>The world: files, descriptors, allocator, console\<close>

text \<open>
  One line of diagnostics per \<open>printf\<close> or \<open>fprintf(stderr, ...)\<close> call of the three
  functions below, holding the values the call prints.
\<close>

datatype message =
    Number_of_sprites nat
  | Failed_to_open path
  | Unable_to_seek nat path
  | Unable_to_read nat nat path
  | Failed_to_read_sprite_count path
  | Failed_to_allocate_header nat
  | Failed_to_read_header nat path
  | Failed_to_allocate_sprite nat nat
  | Failed_to_read_pixel_data nat path
  | Unable_to_open_for_writing path

record open_file =
  of_path :: path
  of_pos :: nat

text \<open>
  \<^item> \<open>files p\<close> is the content of the file at path \<open>p\<close>, \<open>None\<close> when \<open>open\<close> for reading
    fails there;
  \<^item> \<open>seekable p\<close> is false for a pipe or a terminal, where \<open>lseek\<close> fails;
  \<^item> \<open>creatable p\<close> says whether \<open>fopen(p, "w")\<close> succeeds;
  \<^item> \<open>accepts_writes p\<close> is false where every write fails (a full device);
  \<^item> \<open>can_alloc n\<close> says whether \<open>malloc(n)\<close> returns a buffer;
  \<^item> \<open>fds\<close> is the descriptor table, indexed by descriptor number; a \<open>FILE*\<close> stream
    occupies a slot as well;
  \<^item> \<open>stdout_log\<close> and \<open>stderr_log\<close> are what was printed.
\<close>

record world =
  files :: "path \<Rightarrow> byte list option"
  seekable :: "path \<Rightarrow> bool"
  creatable :: "path \<Rightarrow> bool"
  accepts_writes :: "path \<Rightarrow> bool"
  can_alloc :: "nat \<Rightarrow> bool"
  fds :: "open_file option list"
  stdout_log :: "message list"
  stderr_log :: "message list"

definition printf :: "world \<Rightarrow> message \<Rightarrow> world" where
  "printf w m = w\<lparr>stdout_log := stdout_log w @ [m]\<rparr>"

definition eprintf :: "world \<Rightarrow> message \<Rightarrow> world" where
  "eprintf w m = w\<lparr>stderr_log := stderr_log w @ [m]\<rparr>"

text \<open>A new descriptor is the lowest number not in use.\<close>

fun lowest_free :: "open_file option list \<Rightarrow> nat" where
  "lowest_free [] = 0"
| "lowest_free (None # t) = 0"
| "lowest_free (Some e # t) = Suc (lowest_free t)"

definition install :: "open_file option list \<Rightarrow> nat \<Rightarrow> open_file \<Rightarrow> open_file option list" where
  "install t n e = (if n < length t then t[n := Some e] else t @ [Some e])"

definition fd_lookup :: "open_file option list \<Rightarrow> int \<Rightarrow> open_file option" where
  "fd_lookup t fd = (if 0 \<le> fd \<and> nat fd < length t then t ! nat fd else None)"

text \<open>\<open>open(p, O_RDONLY)\<close>: the descriptor, or \<open>-1\<close>.\<close>

definition sys_open :: "world \<Rightarrow> path \<Rightarrow> world \<times> int" where
  "sys_open w p =
     (case files w p of
        None \<Rightarrow> (w, -1)
      | Some bs \<Rightarrow>
          (let n = lowest_free (fds w)
           in (w\<lparr>fds := install (fds w) n \<lparr>of_path = p, of_pos = 0\<rparr>\<rparr>, int n)))"

text \<open>\<open>lseek(fd, off, SEEK_SET)\<close>: the new offset, or \<open>-1\<close>. Seeking past the end of a
  regular file succeeds.\<close>

definition sys_lseek :: "world \<Rightarrow> int \<Rightarrow> nat \<Rightarrow> world \<times> int" where
  "sys_lseek w fd off =
     (case fd_lookup (fds w) fd of
        None \<Rightarrow> (w, -1)
      | Some e \<Rightarrow>
          (if seekable w (of_path e)
           then (w\<lparr>fds := (fds w)[nat fd := Some (e\<lparr>of_pos := off\<rparr>)]\<rparr>, int off)
           else (w, -1)))"

text \<open>
  \<open>read(fd, buf, count)\<close>: the bytes transferred (at most \<open>count\<close>, fewer only at the end
  of the file) and their number, or \<open>-1\<close>. The offset moves past what was transferred.
\<close>

definition sys_read :: "world \<Rightarrow> int \<Rightarrow> nat \<Rightarrow> world \<times> int \<times> byte list" where
  "sys_read w fd count =
     (case fd_lookup (fds w) fd of
        None \<Rightarrow> (w, -1, [])
      | Some e \<Rightarrow>
          (case files w (of_path e) of
             None \<Rightarrow> (w, -1, [])
           | Some bs \<Rightarrow>
               (let got = take count (drop (of_pos e) bs)
                in (w\<lparr>fds := (fds w)[nat fd := Some (e\<lparr>of_pos := of_pos e + length got\<rparr>)]\<rparr>,
                    int (length got), got))))"

definition sys_close :: "world \<Rightarrow> int \<Rightarrow> world" where
  "sys_close w fd =
     (if fd_lookup (fds w) fd \<noteq> None then w\<lparr>fds := (fds w)[nat fd := None]\<rparr> else w)"

text \<open>
  \<open>fopen(p, "w")\<close> creates or truncates the file and returns a stream, or \<open>NULL\<close>
  (\<open>None\<close>). \<open>fprintf\<close> appends the text to the stream's file and returns the number of
  characters, or a negative value when the write fails. Buffering is not modelled: the
  text reaches the file at once, which gives the same file after \<open>fclose\<close>.
\<close>

definition fopen_w :: "world \<Rightarrow> path \<Rightarrow> world \<times> nat option" where
  "fopen_w w p =
     (if creatable w p
      then (let n = lowest_free (fds w)
            in (w\<lparr>files := (files w)(p \<mapsto> []),
                   fds := install (fds w) n \<lparr>of_path = p, of_pos = 0\<rparr>\<rparr>, Some n))
      else (w, None))"

definition fprintf :: "world \<Rightarrow> nat \<Rightarrow> string \<Rightarrow> world \<times> int" where
  "fprintf w stream s =
     (case fd_lookup (fds w) (int stream) of
        None \<Rightarrow> (w, -1)
      | Some e \<Rightarrow>
          (case files w (of_path e) of
             None \<Rightarrow> (w, -1)
           | Some bs \<Rightarrow>
               (if accepts_writes w (of_path e)
                then (w\<lparr>files := (files w)(of_path e \<mapsto> bs @ bytes_of s)\<rparr>, int (length s))
                else (w, -1))))"

definition fclose :: "world \<Rightarrow> nat \<Rightarrow> world" where
  "fclose w stream = sys_close w (int stream)"

subsection \<open>linearize_planar_data\<close>

text \<open>
  The two nested \<open>for\<close> loops, the inner one first. A buffer is a list, a store
  \<open>linear_data[i] = v\<close> is a list update. The C code indexes both buffers below
  \<open>pixelcount\<close> only, so every access is in range when the caller supplies buffers of
  \<open>pixelcount\<close> bytes, as the contract asks.
\<close>

function linearize_plane :: "byte list \<Rightarrow> byte list \<Rightarrow> nat \<Rightarrow> nat \<Rightarrow> nat \<Rightarrow> byte list" where
  "linearize_plane planar_data linear_data pixels_per_plane modex_plane pixel_index =
     (if pixel_index < pixels_per_plane
      then (let planar_index = (modex_plane * pixels_per_plane) + pixel_index;
                linear_index = (MODEX_PLANES * pixel_index) + modex_plane
            in linearize_plane planar_data
                 (linear_data[linear_index := planar_data ! planar_index])
                 pixels_per_plane modex_plane (pixel_index + 1))
      else linear_data)"
  by pat_completeness auto
termination
  by (relation "measure (\<lambda>(p, l, n, k, i). n - i)") auto

function linearize_planes :: "byte list \<Rightarrow> byte list \<Rightarrow> nat \<Rightarrow> nat \<Rightarrow> byte list" where
  "linearize_planes planar_data linear_data pixels_per_plane modex_plane =
     (if modex_plane < MODEX_PLANES
      then linearize_planes planar_data
             (linearize_plane planar_data linear_data pixels_per_plane modex_plane 0)
             pixels_per_plane (modex_plane + 1)
      else linear_data)"
  by pat_completeness auto
termination
  by (relation "measure (\<lambda>(p, l, n, k). MODEX_PLANES - k)") auto

definition linearize_planar_data :: "byte list \<Rightarrow> byte list \<Rightarrow> nat \<Rightarrow> byte list" where
  "linearize_planar_data planar_data linear_data pixelcount =
     (let pixels_per_plane = pixelcount div MODEX_PLANES
      in linearize_planes planar_data linear_data pixels_per_plane 0)"

subsection \<open>read_palette\<close>

text \<open>
  The caller's buffer \<open>palette_data\<close> goes in and comes back: \<open>read\<close> stores what it
  transferred at the start of the buffer and leaves the rest as it was.
\<close>

definition read_palette :: "world \<Rightarrow> path \<Rightarrow> byte list \<Rightarrow> world \<times> bool \<times> byte list" where
  "read_palette w filename palette_data =
     (case sys_open w filename of (w1, fd) \<Rightarrow>
        if fd > 0
        then (case sys_lseek w1 fd PALETTE_DATA_OFFSET of (w2, pos) \<Rightarrow>
                if pos = int PALETTE_DATA_OFFSET
                then (case sys_read w2 fd PALETTE_SIZE_BYTES of (w3, n, got) \<Rightarrow>
                        if n = int PALETTE_SIZE_BYTES
                        then (sys_close w3 fd, True, got @ drop (length got) palette_data)
                        else (sys_close
                                (eprintf w3 (Unable_to_read PALETTE_SIZE_BYTES PALETTE_DATA_OFFSET filename))
                                fd,
                              False, got @ drop (length got) palette_data))
                else (sys_close (eprintf w2 (Unable_to_seek PALETTE_DATA_OFFSET filename)) fd,
                      False, palette_data))
        else (eprintf w1 (Failed_to_open filename), False, palette_data))"

subsection \<open>write_ppm\<close>

text \<open>
  \<open>snprintf(buf, size, ...)\<close> stores at most \<open>size - 1\<close> characters of the formatted text
  (and the terminating zero).
\<close>

definition snprintf :: "nat \<Rightarrow> string \<Rightarrow> string" where
  "snprintf n s = take (n - 1) s"

definition ppm_name :: "path \<Rightarrow> byte \<Rightarrow> path" where
  "ppm_name filename_base sprite_index =
     snprintf (MAX_FILENAME_LEN - 1) (filename_base @ ''_'' @ dec03 (unat sprite_index) @ ''.ppm'')"

definition triplet :: "palette_entry \<Rightarrow> string" where
  "triplet e = dec03 (unat (r e)) @ '' '' @ dec03 (unat (g e)) @ '' '' @ dec03 (unat (b e)) @ ''   ''"

text \<open>The pixel loop. The value \<open>fprintf\<close> returns is dropped, as in the source.\<close>

function write_pixels :: "world \<Rightarrow> nat \<Rightarrow> palette_entry list \<Rightarrow> byte list \<Rightarrow> nat \<Rightarrow> nat \<Rightarrow> world" where
  "write_pixels w fd palette data pixel_count pixel_index =
     (if pixel_index < pixel_count
      then (let w1 = (if pixel_index mod 4 = 0 then fst (fprintf w fd newline) else w);
                pal_index = data ! pixel_index;
                w2 = fst (fprintf w1 fd (triplet (palette ! unat pal_index)))
            in write_pixels w2 fd palette data pixel_count (pixel_index + 1))
      else w)"
  by pat_completeness auto
termination
  by (relation "measure (\<lambda>(w, fd, p, d, n, i). n - i)") auto

definition write_ppm ::
  "world \<Rightarrow> path \<Rightarrow> byte \<Rightarrow> palette_entry list \<Rightarrow> byte list \<Rightarrow> byte \<Rightarrow> byte \<Rightarrow> world \<times> bool" where
  "write_ppm w filename_base sprite_index palette data width' height' =
     (let filename = ppm_name filename_base sprite_index
      in case fopen_w w filename of (w1, fd) \<Rightarrow>
           (let pixel_count = unat width' * unat height'
            in case fd of
                 Some stream \<Rightarrow>
                   (let w2 = fst (fprintf w1 stream
                                    (''P3'' @ newline @ dec (unat width') @ '' '' @ dec (unat height')
                                       @ newline @ ''255''));
                        w3 = write_pixels w2 stream palette data pixel_count 0
                    in (fclose w3 stream, True))
               | None \<Rightarrow> (eprintf w1 (Unable_to_open_for_writing filename), False)))"

subsection \<open>decode_spr\<close>

text \<open>
  The body of the loop over the directory, for the entry \<open>e\<close> at \<open>sprite_index\<close>.
  \<open>pixel_count\<close> is at most \<open>255 * 255\<close> and fits its type. A buffer from \<open>malloc\<close> has
  no known content; the body reads it only after \<open>read\<close> has filled all of it, so the
  buffer handed to \<open>write_ppm\<close> is what \<open>read\<close> transferred. \<open>free\<close> changes nothing
  the model observes.
\<close>

definition decode_sprite ::
  "world \<Rightarrow> int \<Rightarrow> path \<Rightarrow> palette_entry list \<Rightarrow> width_height_pair \<Rightarrow> byte \<Rightarrow> bool \<Rightarrow> world \<times> bool" where
  "decode_sprite w fd filename pal_data e sprite_index status =
     (if width e \<noteq> 0 \<and> height e \<noteq> 0
      then (let pixel_count = unat (width e) * unat (height e)
            in if can_alloc w pixel_count
               then (case sys_read w fd pixel_count of (w1, n, pixel_data) \<Rightarrow>
                       if n = int pixel_count
                       then (case write_ppm w1 filename sprite_index pal_data pixel_data
                                    (width e) (height e) of
                               (w2, ok) \<Rightarrow> (w2, if \<not> ok then False else status))
                       else (eprintf w1 (Failed_to_read_pixel_data pixel_count filename), False))
               else (eprintf w (Failed_to_allocate_sprite pixel_count (unat sprite_index)), False))
      else (w, status))"

text \<open>The \<open>for\<close> loop; \<open>sprite_index\<close> and \<open>num_sprites\<close> are \<open>uint8_t\<close>.\<close>

function sprite_loop ::
  "world \<Rightarrow> int \<Rightarrow> path \<Rightarrow> palette_entry list \<Rightarrow> width_height_pair list \<Rightarrow> byte \<Rightarrow> byte \<Rightarrow> bool
     \<Rightarrow> world \<times> bool" where
  "sprite_loop w fd filename pal_data width_height_data num_sprites sprite_index status =
     (if sprite_index < num_sprites
      then (case decode_sprite w fd filename pal_data
                   (width_height_data ! unat sprite_index) sprite_index status of
              (w', status') \<Rightarrow>
                sprite_loop w' fd filename pal_data width_height_data num_sprites
                  (sprite_index + 1) status')
      else (w, status))"
  by pat_completeness auto
termination
proof (relation "measure (\<lambda>(w, fd, f, p, d, n, i, s). unat n - unat i)")
  show "wf (measure (\<lambda>(w, fd, f, p, d, n, i, s). unat n - unat i))"
    by simp
next
  fix w :: world and fd :: int and filename :: path and pal_data :: "palette_entry list"
    and width_height_data :: "width_height_pair list" and num_sprites sprite_index :: byte
    and status :: bool and w' :: world and status' :: bool
  assume less: "sprite_index < num_sprites"
  then have "unat sprite_index < unat num_sprites"
    by (simp add: word_less_nat_alt)
  moreover have "unat num_sprites < 256"
    using unsigned_less [of num_sprites, where ?'a = nat] by simp
  ultimately have "unat (sprite_index + 1) = Suc (unat sprite_index)"
    by (simp add: unat_word_ariths)
  with \<open>unat sprite_index < unat num_sprites\<close>
  show "((w', fd, filename, pal_data, width_height_data, num_sprites, sprite_index + 1, status'),
         (w, fd, filename, pal_data, width_height_data, num_sprites, sprite_index, status))
        \<in> measure (\<lambda>(w, fd, f, p, d, n, i, s). unat n - unat i)"
    by simp
qed

text \<open>
  \<open>num_sprites\<close> starts as 0 and holds the first byte once \<open>read\<close> has delivered it.
  \<open>header_size\<close> is at most 510 and fits its 16 bits. The function has no \<open>close\<close>.
\<close>

definition decode_spr :: "world \<Rightarrow> path \<Rightarrow> palette_entry list \<Rightarrow> world \<times> bool" where
  "decode_spr w filename pal_data =
     (case sys_open w filename of (w1, fd) \<Rightarrow>
        if fd > 0
        then (case sys_read w1 fd 1 of (w2, n, got) \<Rightarrow>
                if n = 1
                then (let num_sprites = (case got of [] \<Rightarrow> 0 | x # xs \<Rightarrow> x);
                          w3 = printf w2 (Number_of_sprites (unat num_sprites));
                          header_size = unat num_sprites * 2
                      in if can_alloc w3 header_size
                         then (case sys_read w3 fd header_size of (w4, m, header) \<Rightarrow>
                                 if m = int header_size
                                 then sprite_loop w4 fd filename pal_data (as_pairs header)
                                        num_sprites 0 True
                                 else (eprintf w4 (Failed_to_read_header header_size filename), False))
                         else (eprintf w3 (Failed_to_allocate_header header_size), False))
                else (eprintf w2 (Failed_to_read_sprite_count filename), False))
        else (eprintf w1 (Failed_to_open filename), False))"

section \<open>Notions used in the statements\<close>

text \<open>
  The definitions of this section are not part of the program. They name what the
  theorems compare the program with: the expected content of an output file, a
  well-formed archive, the state of a descriptor.
\<close>

subsection \<open>The text of a plain pixel map\<close>

text \<open>
  The header, then one triplet per pixel, in the order of the pixel buffer, each pixel
  looked up in the palette; the pixels whose index is a multiple of 4 start a new line.
\<close>

definition pixel_text :: "palette_entry list \<Rightarrow> nat \<Rightarrow> byte \<Rightarrow> string" where
  "pixel_text palette k px = (if k mod 4 = 0 then newline else []) @ triplet (palette ! unat px)"

definition pixels_text :: "palette_entry list \<Rightarrow> byte list \<Rightarrow> nat \<Rightarrow> nat \<Rightarrow> string" where
  "pixels_text palette data i n = concat (map (\<lambda>k. pixel_text palette k (data ! k)) [i..<n])"

definition ppm_text :: "palette_entry list \<Rightarrow> byte list \<Rightarrow> nat \<Rightarrow> nat \<Rightarrow> string" where
  "ppm_text palette data wd ht =
     ''P3'' @ newline @ dec wd @ '' '' @ dec ht @ newline @ ''255''
       @ pixels_text palette data 0 (wd * ht)"

text \<open>The output name before \<open>snprintf\<close> cuts it.\<close>

definition ppm_name_full :: "path \<Rightarrow> byte \<Rightarrow> string" where
  "ppm_name_full filename_base sprite_index =
     filename_base @ ''_'' @ dec03 (unat sprite_index) @ ''.ppm''"

subsection \<open>Archives\<close>

text \<open>
  A directory entry is non-empty when both dimensions are non-zero; its payload has
  \<open>width * height\<close> bytes (which is 0 for an empty entry). An archive built from entries
  with their payloads is the count, the directory, and the payloads in directory order.
\<close>

definition nonempty :: "width_height_pair \<Rightarrow> bool" where
  "nonempty e \<longleftrightarrow> width e \<noteq> 0 \<and> height e \<noteq> 0"

definition pixel_count :: "width_height_pair \<Rightarrow> nat" where
  "pixel_count e = unat (width e) * unat (height e)"

definition build_archive :: "(width_height_pair \<times> byte list) list \<Rightarrow> byte list" where
  "build_archive es =
     [of_nat (length es)] @ concat (map (\<lambda>(e, p). [width e, height e]) es) @ concat (map snd es)"

text \<open>
  Where the payload of entry \<open>k\<close> starts: after the count byte, the directory and the
  payloads of the non-empty entries before \<open>k\<close>. \<open>payload\<close> is the segment found there,
  \<open>artifact\<close> the file content expected for it, and \<open>emitted\<close> the file system after
  entry \<open>k\<close> was written.
\<close>

definition payload_offset :: "width_height_pair list \<Rightarrow> nat \<Rightarrow> nat" where
  "payload_offset whd k =
     1 + 2 * length whd + sum_list (map pixel_count (filter nonempty (take k whd)))"

definition payload :: "byte list \<Rightarrow> width_height_pair list \<Rightarrow> nat \<Rightarrow> byte list" where
  "payload arc whd k = take (pixel_count (whd ! k)) (drop (payload_offset whd k) arc)"

definition artifact :: "palette_entry list \<Rightarrow> byte list \<Rightarrow> width_height_pair list \<Rightarrow> nat \<Rightarrow> byte list" where
  "artifact pal arc whd k =
     bytes_of (ppm_text pal (payload arc whd k) (unat (width (whd ! k))) (unat (height (whd ! k))))"

definition emitted ::
  "path \<Rightarrow> palette_entry list \<Rightarrow> byte list \<Rightarrow> width_height_pair list \<Rightarrow>
     (path \<Rightarrow> byte list option) \<Rightarrow> nat \<Rightarrow> (path \<Rightarrow> byte list option)" where
  "emitted f pal arc whd fs k =
     (if nonempty (whd ! k) then fs(ppm_name f (of_nat k) \<mapsto> artifact pal arc whd k) else fs)"

subsection \<open>Descriptors and the environment\<close>

text \<open>
  \<^item> \<open>closed_again\<close>: the descriptor table after a stream was opened on the lowest free
    slot and closed again; every descriptor is as before (the table may have grown by one
    free slot).
  \<^item> \<open>still_open w fd\<close>: descriptor \<open>fd\<close> is in use.
  \<^item> \<open>reading w n f arc off\<close>: descriptor \<open>n\<close> reads the file \<open>f\<close>, whose content is
    \<open>arc\<close>, at offset \<open>off\<close>.
  \<^item> \<open>same_env\<close>: two worlds answer alike on what can be sought, created, written and
    allocated.
  \<^item> \<open>after_header w f c\<close>: the world once \<open>decode_spr\<close> has opened \<open>f\<close>, read the count
    \<open>c\<close>, printed it and read the directory.
\<close>

definition closed_again :: "open_file option list \<Rightarrow> open_file option list" where
  "closed_again t = (if lowest_free t < length t then t else t @ [None])"

definition still_open :: "world \<Rightarrow> int \<Rightarrow> bool" where
  "still_open w fd \<longleftrightarrow> fd_lookup (fds w) fd \<noteq> None"

definition reading :: "world \<Rightarrow> nat \<Rightarrow> path \<Rightarrow> byte list \<Rightarrow> nat \<Rightarrow> bool" where
  "reading w n f arc off \<longleftrightarrow>
     fd_lookup (fds w) (int n) = Some \<lparr>of_path = f, of_pos = off\<rparr> \<and> files w f = Some arc"

definition same_env :: "world \<Rightarrow> world \<Rightarrow> bool" where
  "same_env w w' \<longleftrightarrow>
     seekable w' = seekable w \<and> creatable w' = creatable w \<and>
     accepts_writes w' = accepts_writes w \<and> can_alloc w' = can_alloc w"

definition after_header :: "world \<Rightarrow> path \<Rightarrow> byte \<Rightarrow> world" where
  "after_header w f c =
     w\<lparr>fds := (install (fds w) (lowest_free (fds w)) \<lparr>of_path = f, of_pos = 0\<rparr>)
               [lowest_free (fds w) := Some \<lparr>of_path = f, of_pos = 1 + 2 * unat c\<rparr>],
       stdout_log := stdout_log w @ [Number_of_sprites (unat c)]\<rparr>"

subsection \<open>Examples\<close>

text \<open>
  The palette that maps index \<open>i\<close> to \<open>(i, i, i)\<close>, and a world in which the three
  standard streams are open on a terminal, every allocation and every output file
  succeeds, and \<open>fs\<close> is the file system.
\<close>

definition grey_palette :: "palette_entry list" where
  "grey_palette = map (\<lambda>i. \<lparr>r = of_nat i, g = of_nat i, b = of_nat i\<rparr>) [0..<256]"

definition example_world :: "(path \<Rightarrow> byte list option) \<Rightarrow> world" where
  "example_world fs =
     \<lparr>files = fs, seekable = (\<lambda>p. True), creatable = (\<lambda>p. True),
      accepts_writes = (\<lambda>p. True), can_alloc = (\<lambda>n. True),
      fds = [Some \<lparr>of_path = ''/dev/tty'', of_pos = 0\<rparr>,
             Some \<lparr>of_path = ''/dev/tty'', of_pos = 0\<rparr>,
             Some \<lparr>of_path = ''/dev/tty'', of_pos = 0\<rparr>],
      stdout_log = [], stderr_log = []\<rparr>"

section \<open>Properties\<close>

declare linearize_plane.simps [simp del] linearize_planes.simps [simp del]
declare write_pixels.simps [simp del] sprite_loop.simps [simp del] dec.simps [simp del]

subsection \<open>The planar-to-linear conversion\<close>

lemma length_linearize_plane:
  "length (linearize_plane planar_data linear_data n k i) = length linear_data"
proof (induction planar_data linear_data n k i rule: linearize_plane.induct)
  case (1 planar_data linear_data n k i)
  show ?case
  proof (cases "i < n")
    case True
    with "1" show ?thesis
      by (subst linearize_plane.simps) (simp add: Let_def)
  next
    case False
    then show ?thesis by (subst linearize_plane.simps) simp
  qed
qed

lemma linearize_plane_nth:
  "k < 4 \<Longrightarrow> j < length linear_data \<Longrightarrow>
   linearize_plane planar_data linear_data n k i ! j =
     (if j mod 4 = k \<and> i \<le> j div 4 \<and> j div 4 < n
      then planar_data ! (k * n + j div 4) else linear_data ! j)"
proof (induction planar_data linear_data n k i rule: linearize_plane.induct)
  case (1 planar_data linear_data n k i)
  show ?case
  proof (cases "i < n")
    case True
    have eq: "4 * i + k = j \<longleftrightarrow> j mod 4 = k \<and> j div 4 = i"
      using \<open>k < 4\<close> by auto
    have upd: "linear_data[4 * i + k := v] ! j =
        (if j mod 4 = k \<and> j div 4 = i then v else linear_data ! j)" for v
    proof (cases "4 * i + k = j")
      case True
      then have "j mod 4 = k \<and> j div 4 = i" using eq by simp
      moreover from True "1.prems" have "linear_data[4 * i + k := v] ! j = v" by auto
      ultimately show ?thesis by simp
    next
      case False
      then have "\<not> (j mod 4 = k \<and> j div 4 = i)" using eq by simp
      with False show ?thesis by auto
    qed
    have "linearize_plane planar_data linear_data n k i ! j =
        linearize_plane planar_data (linear_data[4 * i + k := planar_data ! (k * n + i)])
          n k (Suc i) ! j"
      using True by (subst linearize_plane.simps) (simp add: Let_def MODEX_PLANES_def)
    also have "\<dots> = (if j mod 4 = k \<and> Suc i \<le> j div 4 \<and> j div 4 < n
        then planar_data ! (k * n + j div 4)
        else linear_data[4 * i + k := planar_data ! (k * n + i)] ! j)"
      using "1.IH" [OF True refl refl] "1.prems" by (simp add: MODEX_PLANES_def)
    also have "\<dots> = (if j mod 4 = k \<and> i \<le> j div 4 \<and> j div 4 < n
        then planar_data ! (k * n + j div 4) else linear_data ! j)"
      using True by (auto simp: upd)
    finally show ?thesis .
  next
    case False
    then show ?thesis by (subst linearize_plane.simps) auto
  qed
qed

lemma length_linearize_planes:
  "length (linearize_planes planar_data linear_data n k) = length linear_data"
proof (induction planar_data linear_data n k rule: linearize_planes.induct)
  case (1 planar_data linear_data n k)
  show ?case
  proof (cases "k < MODEX_PLANES")
    case True
    with "1" show ?thesis
      by (subst linearize_planes.simps) (simp add: length_linearize_plane)
  next
    case False
    then show ?thesis by (subst linearize_planes.simps) simp
  qed
qed

lemma linearize_planes_nth:
  "j < length linear_data \<Longrightarrow>
   linearize_planes planar_data linear_data n k ! j =
     (if k \<le> j mod 4 \<and> j div 4 < n
      then planar_data ! ((j mod 4) * n + j div 4) else linear_data ! j)"
proof (induction planar_data linear_data n k rule: linearize_planes.induct)
  case (1 planar_data linear_data n k)
  show ?case
  proof (cases "k < MODEX_PLANES")
    case True
    then have k: "k < 4" by (simp add: MODEX_PLANES_def)
    from True "1.prems" "1.IH" [OF True] k show ?thesis
      by (subst linearize_planes.simps)
         (auto simp: length_linearize_plane linearize_plane_nth)
  next
    case False
    then have "\<not> k \<le> j mod 4" by (simp add: MODEX_PLANES_def)
    with False show ?thesis by (subst linearize_planes.simps) simp
  qed
qed


lemma linearize_planar_data_nth:
  assumes "length linear_data = n" and "j < n" and "j div 4 < n div 4"
  shows "linearize_planar_data planar_data linear_data n ! j =
           planar_data ! ((j mod 4) * (n div 4) + j div 4)"
  using assms by (simp add: linearize_planar_data_def MODEX_PLANES_def linearize_planes_nth)

lemma linearize_planar_data_map:
  assumes "4 dvd n" and "length linear_data = n"
  shows "linearize_planar_data planar_data linear_data n =
           map (\<lambda>j. planar_data ! ((j mod 4) * (n div 4) + j div 4)) [0..<n]"
proof (rule nth_equalityI)
  show "length (linearize_planar_data planar_data linear_data n) =
        length (map (\<lambda>j. planar_data ! ((j mod 4) * (n div 4) + j div 4)) [0..<n])"
    using assms by (simp add: linearize_planar_data_def length_linearize_planes)
next
  fix j
  assume "j < length (linearize_planar_data planar_data linear_data n)"
  then have j: "j < n"
    using assms by (simp add: linearize_planar_data_def length_linearize_planes)
  with \<open>4 dvd n\<close> have "j div 4 < n div 4"
    by (auto simp: dvd_def)
  with j assms show "linearize_planar_data planar_data linear_data n ! j =
      map (\<lambda>j. planar_data ! ((j mod 4) * (n div 4) + j div 4)) [0..<n] ! j"
    by (simp add: linearize_planar_data_nth)
qed

text \<open>
  Claim C9. When the pixel count \<open>n\<close> is a multiple of 4 and both buffers hold \<open>n\<close>
  bytes, the output has \<open>n\<close> bytes and byte \<open>4 * p + k\<close> of the output is byte
  \<open>k * (n div 4) + p\<close> of the planar input, for every plane \<open>k < 4\<close> and every pixel
  \<open>p < n div 4\<close>. For \<open>n = 8\<close> the planes \<open>[A0, A1], [B0, B1], [C0, C1], [D0, D1]\<close>
  come out as \<open>[A0, B0, C0, D0, A1, B1, C1, D1]\<close>, whatever the output buffer held.
\<close>

theorem linearize_planar_data_correct:
  "(4 dvd n \<and> length planar_data = n \<and> length linear_data = n \<longrightarrow>
      length (linearize_planar_data planar_data linear_data n) = n \<and>
      (\<forall>k<4. \<forall>p<n div 4.
         linearize_planar_data planar_data linear_data n ! (4 * p + k) =
           planar_data ! (k * (n div 4) + p))) \<and>
   (length linear_data = 8 \<longrightarrow>
      linearize_planar_data [a0, a1, b0, b1, c0, c1, d0, d1] linear_data 8 =
        [a0, b0, c0, d0, a1, b1, c1, d1])"
proof (intro conjI impI allI)
  assume "4 dvd n \<and> length planar_data = n \<and> length linear_data = n"
  then show "length (linearize_planar_data planar_data linear_data n) = n"
    by (simp add: linearize_planar_data_def length_linearize_planes)
next
  fix k p :: nat
  assume h: "4 dvd n \<and> length planar_data = n \<and> length linear_data = n"
    and k: "k < 4" and p: "p < n div 4"
  from p have "4 * p + k < n" using k h by (auto simp: dvd_def)
  with h k p show "linearize_planar_data planar_data linear_data n ! (4 * p + k) =
      planar_data ! (k * (n div 4) + p)"
    by (simp add: linearize_planar_data_nth)
next
  have upt8: "[0..<8] = [0, 1, 2, 3, 4, 5, 6, 7 :: nat]"
    by code_simp
  assume "length linear_data = 8"
  then show "linearize_planar_data [a0, a1, b0, b1, c0, c1, d0, d1] linear_data 8 =
      [a0, b0, c0, d0, a1, b1, c1, d1]"
    by (simp add: linearize_planar_data_map upt8)
qed

theorem linearize_planar_data_correct_witness:
  "(4::nat) dvd 8 \<and> length [10, 11, 20, 21, 30, 31, 40, 41 :: byte] = 8 \<and>
   length (replicate 8 (0 :: byte)) = 8 \<and>
   linearize_planar_data [10, 11, 20, 21, 30, 31, 40, 41] (replicate 8 0) 8 ! (4 * 1 + 2) = 31 \<and>
   linearize_planar_data [10, 11, 20, 21, 30, 31, 40, 41] (replicate 8 0) 8 =
     [10, 20, 30, 40, 11, 21, 31, 41]"
  using linearize_planar_data_correct [of 8 "[10, 11, 20, 21, 30, 31, 40, 41]" "replicate 8 0"
    10 11 20 21 30 31 40 41]
  by simp


subsection \<open>Descriptors and streams\<close>

lemma lowest_free_le: "lowest_free t \<le> length t"
  by (induction t rule: lowest_free.induct) auto

lemma lowest_free_None: "lowest_free t < length t \<Longrightarrow> t ! lowest_free t = None"
  by (induction t rule: lowest_free.induct) auto

lemma fd_lookup_lowest_free [simp]: "fd_lookup t (int (lowest_free t)) = None"
  by (simp add: fd_lookup_def lowest_free_None)

lemma fd_lookup_install:
  "fd_lookup (install t (lowest_free t) e) fd =
     (if fd = int (lowest_free t) then Some e else fd_lookup t fd)"
  using lowest_free_le [of t]
  by (auto simp: fd_lookup_def install_def nth_append nth_list_update)

lemma fd_lookup_update:
  "fd_lookup t fd \<noteq> None \<Longrightarrow>
   fd_lookup (t[nat fd := x]) fd' = (if fd' = fd then x else fd_lookup t fd')"
  by (auto simp: fd_lookup_def nth_list_update split: if_splits)

lemma bytes_of_append [simp]: "bytes_of (s @ t) = bytes_of s @ bytes_of t"
  by (simp add: bytes_of_def)

lemma bytes_of_Nil [simp]: "bytes_of [] = []"
  by (simp add: bytes_of_def)

lemma bytes_of_Cons [simp]: "bytes_of (c # s) = of_char c # bytes_of s"
  by (simp add: bytes_of_def)

lemma fprintf_ok:
  assumes "fd_lookup (fds w) (int s) = Some e" and "files w (of_path e) = Some bs"
    and "accepts_writes w (of_path e)"
  shows "fprintf w s txt = (w\<lparr>files := (files w)(of_path e \<mapsto> bs @ bytes_of txt)\<rparr>, int (length txt))"
  using assms by (simp add: fprintf_def)

lemma fprintf_refused:
  assumes "fd_lookup (fds w) (int s) = Some e" and "\<not> accepts_writes w (of_path e)"
  shows "fprintf w s txt = (w, -1)"
  using assms by (simp add: fprintf_def split: option.splits)

lemma write_pixels_ok:
  assumes "fd_lookup (fds w) (int s) = Some e" and "files w (of_path e) = Some bs"
    and "accepts_writes w (of_path e)"
  shows "write_pixels w s palette data n i =
           w\<lparr>files := (files w)(of_path e \<mapsto> bs @ bytes_of (pixels_text palette data i n))\<rparr>"
  using assms
proof (induction w s palette data n i arbitrary: bs rule: write_pixels.induct)
  case (1 w s palette data n i)
  show ?case
  proof (cases "i < n")
    case False
    then have "pixels_text palette data i n = []"
      by (simp add: pixels_text_def)
    moreover have "(files w)(of_path e \<mapsto> bs) = files w"
      using "1.prems" by (simp add: fun_upd_idem)
    ultimately show ?thesis
      using False by (subst write_pixels.simps) simp
  next
    case True
    define w1 where "w1 = (if i mod 4 = 0 then fst (fprintf w s newline) else w)"
    define t1 where "t1 = (if i mod 4 = 0 then newline else [])"
    define w2 where "w2 = fst (fprintf w1 s (triplet (palette ! unat (data ! i))))"
    have w1: "w1 = w\<lparr>files := (files w)(of_path e \<mapsto> bs @ bytes_of t1)\<rparr>"
    proof (cases "i mod 4 = 0")
      case True
      then show ?thesis
        using "1.prems" by (simp add: w1_def t1_def fprintf_ok)
    next
      case False
      moreover have "(files w)(of_path e \<mapsto> bs) = files w"
        using "1.prems" by (simp add: fun_upd_idem)
      ultimately show ?thesis
        by (simp add: w1_def t1_def)
    qed
    have l1: "fd_lookup (fds w1) (int s) = Some e"
      and f1: "files w1 (of_path e) = Some (bs @ bytes_of t1)"
      and a1: "accepts_writes w1 (of_path e)"
      using "1.prems" by (simp_all add: w1)
    have w2: "w2 = w\<lparr>files := (files w)(of_path e \<mapsto>
        bs @ bytes_of (pixel_text palette i (data ! i)))\<rparr>"
      unfolding w2_def fprintf_ok [OF l1 f1 a1]
      by (simp add: w1 pixel_text_def t1_def)
    have l2: "fd_lookup (fds w2) (int s) = Some e"
      and f2: "files w2 (of_path e) = Some (bs @ bytes_of (pixel_text palette i (data ! i)))"
      and a2: "accepts_writes w2 (of_path e)"
      using "1.prems" by (simp_all add: w2)
    have "write_pixels w s palette data n i = write_pixels w2 s palette data n (i + 1)"
      using True by (subst write_pixels.simps) (simp add: Let_def w1_def w2_def)
    also have "\<dots> = w2\<lparr>files := (files w2)(of_path e \<mapsto>
        (bs @ bytes_of (pixel_text palette i (data ! i)))
          @ bytes_of (pixels_text palette data (i + 1) n))\<rparr>"
      using "1.IH" [OF True w1_def refl w2_def l2 f2 a2] .
    also have "\<dots> = w\<lparr>files := (files w)(of_path e \<mapsto>
        bs @ bytes_of (pixels_text palette data i n))\<rparr>"
      using True by (simp add: w2 pixels_text_def upt_conv_Cons)
    finally show ?thesis .
  qed
qed


lemma write_pixels_refused:
  assumes "fd_lookup (fds w) (int s) = Some e" and "\<not> accepts_writes w (of_path e)"
  shows "write_pixels w s palette data n i = w"
  using assms
proof (induction w s palette data n i rule: write_pixels.induct)
  case (1 w s palette data n i)
  show ?case
  proof (cases "i < n")
    case False
    then show ?thesis by (subst write_pixels.simps) simp
  next
    case True
    have "write_pixels w s palette data n i = write_pixels w s palette data n (i + 1)"
      using True "1.prems" by (subst write_pixels.simps) (simp add: Let_def fprintf_refused)
    also have "\<dots> = w"
      using "1.IH" [OF True refl refl, of w] "1.prems" True
      by (simp add: fprintf_refused)
    finally show ?thesis .
  qed
qed

lemma fd_lookup_closed_again [simp]: "fd_lookup (closed_again t) fd = fd_lookup t fd"
  by (auto simp: closed_again_def fd_lookup_def nth_append)

lemma install_closed:
  "(install t (lowest_free t) e)[lowest_free t := None] = closed_again t"
  using lowest_free_le [of t] lowest_free_None [of t]
  by (auto simp: install_def closed_again_def list_update_append list_update_same_conv)

lemma write_ppm_ok:
  assumes "creatable w (ppm_name filename_base sprite_index)"
    and "accepts_writes w (ppm_name filename_base sprite_index)"
  shows "write_ppm w filename_base sprite_index palette data wd ht =
           (w\<lparr>files := (files w)(ppm_name filename_base sprite_index \<mapsto>
                   bytes_of (ppm_text palette data (unat wd) (unat ht))),
               fds := closed_again (fds w)\<rparr>, True)"
proof -
  define name where "name = ppm_name filename_base sprite_index"
  define n where "n = lowest_free (fds w)"
  define e where "e = \<lparr>of_path = name, of_pos = 0\<rparr>"
  define w1 where "w1 = w\<lparr>files := (files w)(name \<mapsto> []), fds := install (fds w) n e\<rparr>"
  define hdr where "hdr = ''P3'' @ newline @ dec (unat wd) @ '' '' @ dec (unat ht) @ newline @ ''255''"
  define w2 where "w2 = w1\<lparr>files := (files w1)(name \<mapsto> bytes_of hdr)\<rparr>"
  have open1: "fopen_w w name = (w1, Some n)"
    using assms by (simp add: fopen_w_def name_def w1_def n_def e_def Let_def)
  have l1: "fd_lookup (fds w1) (int n) = Some e"
    by (simp add: w1_def n_def fd_lookup_install)
  have f1: "files w1 (of_path e) = Some []" and a1: "accepts_writes w1 (of_path e)"
    using assms by (simp_all add: w1_def e_def name_def)
  have p1: "fprintf w1 n hdr = (w2, int (length hdr))"
    using fprintf_ok [OF l1 f1 a1, of hdr] by (simp add: w2_def e_def)
  have l2: "fd_lookup (fds w2) (int n) = Some e"
    using l1 by (simp add: w2_def)
  have f2: "files w2 (of_path e) = Some (bytes_of hdr)" and a2: "accepts_writes w2 (of_path e)"
    using a1 by (simp_all add: w2_def e_def)
  define w3 where "w3 = write_pixels w2 n palette data (unat wd * unat ht) 0"
  have w3: "w3 = w2\<lparr>files := (files w2)(name \<mapsto>
      bytes_of hdr @ bytes_of (pixels_text palette data 0 (unat wd * unat ht)))\<rparr>"
    unfolding w3_def using write_pixels_ok [OF l2 f2 a2] by (simp add: e_def)
  have l3: "fd_lookup (fds w3) (int n) = Some e"
    using l2 by (simp add: w3)
  have "write_ppm w filename_base sprite_index palette data wd ht = (fclose w3 n, True)"
    using open1 p1 [unfolded hdr_def] by (simp add: write_ppm_def name_def [symmetric] w3_def Let_def)
  moreover have "fclose w3 n = w\<lparr>files := (files w)(name \<mapsto>
      bytes_of (ppm_text palette data (unat wd) (unat ht))), fds := closed_again (fds w)\<rparr>"
    using l3 by (simp add: fclose_def sys_close_def w3 w2_def w1_def ppm_text_def hdr_def
          n_def install_closed)
  ultimately show ?thesis by (simp add: name_def)
qed

lemma write_ppm_refused:
  assumes "creatable w (ppm_name filename_base sprite_index)"
    and "\<not> accepts_writes w (ppm_name filename_base sprite_index)"
  shows "write_ppm w filename_base sprite_index palette data wd ht =
           (w\<lparr>files := (files w)(ppm_name filename_base sprite_index \<mapsto> []),
               fds := closed_again (fds w)\<rparr>, True)"
proof -
  define name where "name = ppm_name filename_base sprite_index"
  define n where "n = lowest_free (fds w)"
  define e where "e = \<lparr>of_path = name, of_pos = 0\<rparr>"
  define w1 where "w1 = w\<lparr>files := (files w)(name \<mapsto> []), fds := install (fds w) n e\<rparr>"
  have open1: "fopen_w w name = (w1, Some n)"
    using assms by (simp add: fopen_w_def name_def w1_def n_def e_def Let_def)
  have l1: "fd_lookup (fds w1) (int n) = Some e"
    by (simp add: w1_def n_def fd_lookup_install)
  have a1: "\<not> accepts_writes w1 (of_path e)"
    using assms by (simp_all add: w1_def e_def name_def)
  have "write_ppm w filename_base sprite_index palette data wd ht = (fclose w1 n, True)"
    using open1 l1 a1
    by (simp add: write_ppm_def name_def [symmetric] Let_def fprintf_refused write_pixels_refused)
  moreover have "fclose w1 n = w\<lparr>files := (files w)(name \<mapsto> []), fds := closed_again (fds w)\<rparr>"
    using l1 by (simp add: fclose_def sys_close_def w1_def n_def install_closed)
  ultimately show ?thesis by (simp add: name_def)
qed

lemma write_ppm_no_open:
  assumes "\<not> creatable w (ppm_name filename_base sprite_index)"
  shows "write_ppm w filename_base sprite_index palette data wd ht =
           (eprintf w (Unable_to_open_for_writing (ppm_name filename_base sprite_index)), False)"
  using assms by (simp add: write_ppm_def fopen_w_def Let_def)


subsection \<open>The raster writer\<close>

text \<open>
  Claim C10. \<open>write_ppm\<close> reports success exactly when \<open>fopen\<close> of the output name
  succeeds, in every world and for every palette, pixel buffer, width and height. What
  the \<open>fprintf\<close> calls return plays no part: in a world where the file can be created
  and every write to it fails, the result is success all the same.
\<close>

theorem write_ppm_status:
  "snd (write_ppm w filename_base sprite_index palette data wd ht) =
     creatable w (ppm_name filename_base sprite_index) \<and>
   snd (write_ppm (w\<lparr>creatable := \<lambda>p. True, accepts_writes := \<lambda>p. False\<rparr>)
          filename_base sprite_index palette data wd ht) = True"
proof -
  have "snd (write_ppm v filename_base sprite_index palette data wd ht) =
      creatable v (ppm_name filename_base sprite_index)" for v
  proof (cases "creatable v (ppm_name filename_base sprite_index)")
    case False
    then show ?thesis by (simp add: write_ppm_no_open)
  next
    case True
    then show ?thesis
      by (cases "accepts_writes v (ppm_name filename_base sprite_index)")
         (simp_all add: write_ppm_ok write_ppm_refused)
  qed
  then show ?thesis by simp
qed

lemma upt8: "[0..<8] = [0, 1, 2, 3, 4, 5, 6, 7 :: nat]"
  by code_simp

lemma replicate2: "replicate 2 x = [x, x]"
  by (simp add: numeral_2_eq_2)

lemma ppm_text_example:
  "ppm_text grey_palette [0, 1, 2, 3, 4, 5, 6, 7] 4 2 =
     ''P3'' @ newline @ ''4 2'' @ newline @ ''255'' @ newline
       @ ''000 000 000   001 001 001   002 002 002   003 003 003   '' @ newline
       @ ''004 004 004   005 005 005   006 006 006   007 007 007   ''"
  by (simp add: ppm_text_def pixels_text_def pixel_text_def triplet_def dec03_def dec.simps
        digit_def upt8 grey_palette_def replicate2)



text \<open>
  Claim C5, as amended. For the 4 by 2 sprite with the pixels \<open>0, ..., 7\<close> and the palette
  that maps \<open>i\<close> to \<open>(i, i, i)\<close>, \<open>write_ppm\<close> succeeds and leaves exactly this text in
  the output file: the tag \<open>P3\<close>, the line \<open>4 2\<close>, the line \<open>255\<close>, then the triplets
  \<open>000 000 000\<close> to \<open>007 007 007\<close> in the order of the buffer, every channel three
  digits wide, each triplet followed by three spaces. The line breaks of the pixel part
  are written before the pixels whose index is a multiple of 4: one ends the line
  \<open>255\<close>, one stands between the 4th and the 5th triplet, and none follows the 8th.
\<close>

theorem write_ppm_example:
  assumes "creatable w (ppm_name filename_base sprite_index)"
    and "accepts_writes w (ppm_name filename_base sprite_index)"
  shows "snd (write_ppm w filename_base sprite_index grey_palette [0, 1, 2, 3, 4, 5, 6, 7] 4 2) \<and>
    files (fst (write_ppm w filename_base sprite_index grey_palette [0, 1, 2, 3, 4, 5, 6, 7] 4 2))
        (ppm_name filename_base sprite_index) =
      Some (bytes_of
        (''P3'' @ newline @ ''4 2'' @ newline @ ''255'' @ newline
           @ ''000 000 000   001 001 001   002 002 002   003 003 003   '' @ newline
           @ ''004 004 004   005 005 005   006 006 006   007 007 007   ''))"
proof -
  have "ppm_text grey_palette [0, 1, 2, 3, 4, 5, 6, 7] (unat (4 :: byte)) (unat (2 :: byte)) =
      ''P3'' @ newline @ ''4 2'' @ newline @ ''255'' @ newline
        @ ''000 000 000   001 001 001   002 002 002   003 003 003   '' @ newline
        @ ''004 004 004   005 005 005   006 006 006   007 007 007   ''"
    using ppm_text_example by simp
  then show ?thesis
    by (simp only: write_ppm_ok [OF assms] fst_conv snd_conv) simp
qed

theorem write_ppm_example_witness:
  "creatable (example_world Map.empty) (ppm_name ''a.spr'' 0) \<and>
   accepts_writes (example_world Map.empty) (ppm_name ''a.spr'' 0) \<and>
   ppm_name ''a.spr'' 0 = ''a.spr_000.ppm'' \<and>
   files (fst (write_ppm (example_world Map.empty) ''a.spr'' 0 grey_palette
                 [0, 1, 2, 3, 4, 5, 6, 7] 4 2)) ''a.spr_000.ppm'' =
     Some (bytes_of
       (''P3'' @ newline @ ''4 2'' @ newline @ ''255'' @ newline
          @ ''000 000 000   001 001 001   002 002 002   003 003 003   '' @ newline
          @ ''004 004 004   005 005 005   006 006 006   007 007 007   ''))"
proof -
  have name: "ppm_name ''a.spr'' 0 = ''a.spr_000.ppm''"
    by (simp add: ppm_name_def snprintf_def MAX_FILENAME_LEN_def dec03_def dec.simps digit_def
          replicate2)
  have "creatable (example_world Map.empty) (ppm_name ''a.spr'' 0)"
    and "accepts_writes (example_world Map.empty) (ppm_name ''a.spr'' 0)"
    by (simp_all add: example_world_def)
  from write_ppm_example [OF this] this name show ?thesis
    by (simp only: name)
qed

lemma ppm_name_example: "ppm_name ''a.spr'' 0 = ''a.spr_000.ppm''"
  by (simp add: ppm_name_def snprintf_def MAX_FILENAME_LEN_def dec03_def dec.simps digit_def
        replicate2)

theorem write_ppm_example_counterexample:
  "files (fst (write_ppm (example_world Map.empty) ''a.spr'' 0 grey_palette
                 [0, 1, 2, 3, 4, 5, 6, 7] 4 2)) ''a.spr_000.ppm'' =
     Some (bytes_of
             (''P3'' @ newline @ ''4 2'' @ newline @ ''255'' @ newline
                @ ''000 000 000   001 001 001   002 002 002   003 003 003   '' @ newline
                @ ''004 004 004   005 005 005   006 006 006   007 007 007'')
           @ bytes_of ''   '') \<and>
   of_char (CHR 0x0A) \<notin> set (bytes_of ''   '')"
proof -
  have "creatable (example_world Map.empty) (ppm_name ''a.spr'' 0)"
    and "accepts_writes (example_world Map.empty) (ppm_name ''a.spr'' 0)"
    by (simp_all add: example_world_def)
  from write_ppm_ok [OF this, of grey_palette "[0, 1, 2, 3, 4, 5, 6, 7]" 4 2]
  have "files (fst (write_ppm (example_world Map.empty) ''a.spr'' 0 grey_palette
                 [0, 1, 2, 3, 4, 5, 6, 7] 4 2)) ''a.spr_000.ppm'' =
      Some (bytes_of (ppm_text grey_palette [0, 1, 2, 3, 4, 5, 6, 7] 4 2))"
    by (simp add: ppm_name_example)
  then show ?thesis
    by (simp only: ppm_text_example) (simp add: newline_def)
qed

subsection \<open>The palette reader\<close>

lemma length_as_palette: "length (as_palette bs) = length bs div 3"
  by (induction bs rule: as_palette.induct) auto

lemma as_palette_nth:
  "3 * i + 2 < length bs \<Longrightarrow>
   as_palette bs ! i = \<lparr>r = bs ! (3 * i), g = bs ! (3 * i + 1), b = bs ! (3 * i + 2)\<rparr>"
proof (induction bs arbitrary: i rule: as_palette.induct)
  case (1 x y z bs)
  show ?case
  proof (cases i)
    case 0
    then show ?thesis by simp
  next
    case (Suc k)
    with "1.prems" have "3 * k + 2 < length bs" by simp
    from "1.IH" [OF this] Suc show ?thesis by (simp add: numeral_3_eq_3)
  qed
qed simp_all

lemma fd_lookup_update_nat:
  "fd_lookup t (int n) \<noteq> None \<Longrightarrow>
   fd_lookup (t[n := x]) fd = (if fd = int n then x else fd_lookup t fd)"
  using fd_lookup_update [of t "int n" x fd] by simp

lemma sys_open_ok:
  assumes "files w p = Some src"
  shows "sys_open w p =
     (w\<lparr>fds := install (fds w) (lowest_free (fds w)) \<lparr>of_path = p, of_pos = 0\<rparr>\<rparr>,
      int (lowest_free (fds w)))"
  using assms by (simp add: sys_open_def Let_def)

lemma sys_open_none:
  assumes "files w p = None"
  shows "sys_open w p = (w, -1)"
  using assms by (simp add: sys_open_def)

lemma sys_lseek_ok:
  assumes "fd_lookup (fds w) (int n) = Some e" and "seekable w (of_path e)"
  shows "sys_lseek w (int n) off = (w\<lparr>fds := (fds w)[n := Some (e\<lparr>of_pos := off\<rparr>)]\<rparr>, int off)"
  using assms by (simp add: sys_lseek_def)

lemma sys_lseek_pipe:
  assumes "fd_lookup (fds w) (int n) = Some e" and "\<not> seekable w (of_path e)"
  shows "sys_lseek w (int n) off = (w, -1)"
  using assms by (simp add: sys_lseek_def)

lemma sys_read_ok:
  assumes "fd_lookup (fds w) (int n) = Some e" and "files w (of_path e) = Some bs"
  shows "sys_read w (int n) count =
     (w\<lparr>fds := (fds w)[n := Some (e\<lparr>of_pos := of_pos e + length (take count (drop (of_pos e) bs))\<rparr>)]\<rparr>,
      int (length (take count (drop (of_pos e) bs))), take count (drop (of_pos e) bs))"
  using assms by (simp add: sys_read_def Let_def)

lemma sys_close_ok:
  assumes "fd_lookup (fds w) (int n) = Some e"
  shows "sys_close w (int n) = w\<lparr>fds := (fds w)[n := None]\<rparr>"
  using assms by (simp add: sys_close_def)

lemma read_palette_seekable:
  assumes src: "files w filename = Some src" and seek: "seekable w filename"
    and pos: "0 < lowest_free (fds w)"
  shows "read_palette w filename palette_data =
     (if 781 \<le> length src
      then (w\<lparr>fds := closed_again (fds w)\<rparr>, True,
            take 768 (drop 13 src) @ drop 768 palette_data)
      else (w\<lparr>fds := closed_again (fds w),
              stderr_log := stderr_log w @ [Unable_to_read 768 13 filename]\<rparr>, False,
            drop 13 src @ drop (length src - 13) palette_data))"
proof -
  define n where "n = lowest_free (fds w)"
  define e where "e = \<lparr>of_path = filename, of_pos = 0\<rparr>"
  define w1 where "w1 = w\<lparr>fds := install (fds w) n e\<rparr>"
  define w2 where "w2 = w1\<lparr>fds := (fds w1)[n := Some (e\<lparr>of_pos := 13\<rparr>)]\<rparr>"
  define got where "got = take 768 (drop 13 src)"
  define w3 where "w3 = w2\<lparr>fds := (fds w2)[n := Some (e\<lparr>of_pos := 13 + length got\<rparr>)]\<rparr>"
  have o: "sys_open w filename = (w1, int n)"
    using src by (simp add: sys_open_ok w1_def n_def e_def)
  have l1: "fd_lookup (fds w1) (int n) = Some e"
    by (simp add: w1_def n_def fd_lookup_install)
  have s: "sys_lseek w1 (int n) 13 = (w2, 13)"
    using sys_lseek_ok [OF l1, of 13] seek by (simp add: w2_def e_def w1_def)
  have l2: "fd_lookup (fds w2) (int n) = Some (e\<lparr>of_pos := 13\<rparr>)"
    using l1 by (simp add: w2_def fd_lookup_update_nat)
  have rd: "sys_read w2 (int n) 768 = (w3, int (length got), got)"
    using sys_read_ok [OF l2, of src 768] src
    by (simp add: w3_def got_def e_def w2_def w1_def)
  have l3: "fd_lookup (fds w3) (int n) = Some (e\<lparr>of_pos := 13 + length got\<rparr>)"
    using l2 by (simp add: w3_def fd_lookup_update_nat)
  have l3': "fd_lookup (fds (eprintf w3 m)) (int n) = Some (e\<lparr>of_pos := 13 + length got\<rparr>)" for m
    using l3 by (simp add: eprintf_def)
  have tbl: "(fds w3)[n := None] = closed_again (fds w)"
    by (simp add: w3_def w2_def w1_def n_def install_closed)
  have c3: "sys_close w3 (int n) = w\<lparr>fds := closed_again (fds w)\<rparr>"
    using sys_close_ok [OF l3] tbl by (simp add: w3_def w2_def w1_def)
  have c3': "sys_close (eprintf w3 m) (int n) =
      w\<lparr>fds := closed_again (fds w), stderr_log := stderr_log w @ [m]\<rparr>" for m
    using sys_close_ok [OF l3'] tbl by (simp add: eprintf_def w3_def w2_def w1_def)
  have len: "length got = (if 781 \<le> length src then 768 else length src - 13)"
    by (auto simp: got_def)
  have "read_palette w filename palette_data =
      (if length got = 768 then (sys_close w3 (int n), True, got @ drop (length got) palette_data)
       else (sys_close (eprintf w3 (Unable_to_read 768 13 filename)) (int n), False,
             got @ drop (length got) palette_data))"
    using o s rd pos
    by (simp add: read_palette_def PALETTE_DATA_OFFSET_def PALETTE_SIZE_BYTES_def n_def)
  then show ?thesis
    by (auto simp: c3 c3' len got_def)
qed


lemma read_palette_pipe:
  assumes src: "files w filename = Some src" and seek: "\<not> seekable w filename"
    and pos: "0 < lowest_free (fds w)"
  shows "read_palette w filename palette_data =
     (w\<lparr>fds := closed_again (fds w),
        stderr_log := stderr_log w @ [Unable_to_seek 13 filename]\<rparr>, False, palette_data)"
proof -
  define n where "n = lowest_free (fds w)"
  define e where "e = \<lparr>of_path = filename, of_pos = 0\<rparr>"
  define w1 where "w1 = w\<lparr>fds := install (fds w) n e\<rparr>"
  have o: "sys_open w filename = (w1, int n)"
    using src by (simp add: sys_open_ok w1_def n_def e_def)
  have l1: "fd_lookup (fds w1) (int n) = Some e"
    by (simp add: w1_def n_def fd_lookup_install)
  have s: "sys_lseek w1 (int n) 13 = (w1, -1)"
    using sys_lseek_pipe [OF l1, of 13] seek by (simp add: e_def w1_def)
  have l1': "fd_lookup (fds (eprintf w1 m)) (int n) = Some e" for m
    using l1 by (simp add: eprintf_def)
  have c1: "sys_close (eprintf w1 m) (int n) =
      w\<lparr>fds := closed_again (fds w), stderr_log := stderr_log w @ [m]\<rparr>" for m
    using sys_close_ok [OF l1'] by (simp add: eprintf_def w1_def n_def install_closed)
  show ?thesis
    using o s pos
    by (simp add: read_palette_def PALETTE_DATA_OFFSET_def PALETTE_SIZE_BYTES_def n_def [symmetric] c1)
qed

lemma read_palette_fd0:
  assumes src: "files w filename = Some src" and pos: "lowest_free (fds w) = 0"
  shows "read_palette w filename palette_data =
     (w\<lparr>fds := install (fds w) 0 \<lparr>of_path = filename, of_pos = 0\<rparr>,
        stderr_log := stderr_log w @ [Failed_to_open filename]\<rparr>, False, palette_data)"
  using assms by (simp add: read_palette_def sys_open_ok eprintf_def)

lemma read_palette_absent:
  assumes "files w filename = None"
  shows "read_palette w filename palette_data =
     (w\<lparr>stderr_log := stderr_log w @ [Failed_to_open filename]\<rparr>, False, palette_data)"
  using assms by (simp add: read_palette_def sys_open_none eprintf_def)

lemma read_palette_success:
  assumes "fst (snd (read_palette w filename palette_data))"
  shows "\<exists>src. files w filename = Some src \<and> 781 \<le> length src \<and>
           take 768 (snd (snd (read_palette w filename palette_data))) = take 768 (drop 13 src)"
proof (cases "files w filename")
  case None
  with assms show ?thesis by (simp add: read_palette_absent)
next
  case (Some src)
  show ?thesis
  proof (cases "lowest_free (fds w) = 0")
    case True
    with Some assms show ?thesis by (simp add: read_palette_fd0)
  next
    case False
    then have pos: "0 < lowest_free (fds w)" by simp
    show ?thesis
    proof (cases "seekable w filename")
      case False
      with Some pos assms show ?thesis by (simp add: read_palette_pipe)
    next
      case True
      with Some pos assms show ?thesis
        by (simp add: read_palette_seekable split: if_splits)
    qed
  qed
qed

text \<open>
  Claim C2. Let the palette file open on a positive descriptor (descriptor 0 is in use,
  as it is when the standard input is open).
  \<^item> If the file is seekable and at least 781 bytes long, \<open>read_palette\<close> succeeds; with
    the 768-byte buffer of \<open>main\<close> the buffer returned is bytes 13 to 780 of the file,
    and seen as a colour table it has exactly 256 entries, entry \<open>i\<close> being the bytes
    \<open>13 + 3i\<close>, \<open>14 + 3i\<close>, \<open>15 + 3i\<close> as red, green and blue.
  \<^item> If the file is shorter than 781 bytes, \<open>read_palette\<close> fails and reports a seek
    error or a read error.
  \<^item> In every world, success means that the file has at least 781 bytes and that the
    first 768 bytes of the buffer are bytes 13 to 780 of the file: no success with a
    partly filled table.
\<close>

theorem read_palette_correct:
  "(files w filename = Some src \<and> seekable w filename \<and> 0 < lowest_free (fds w) \<and>
    781 \<le> length src \<and> length palette_data = 768 \<longrightarrow>
      (case read_palette w filename palette_data of
         (w', status, table) \<Rightarrow>
           status \<and> table = take 768 (drop 13 src) \<and> length (as_palette table) = 256 \<and>
           (\<forall>i<256. as_palette table ! i =
              \<lparr>r = src ! (13 + 3 * i), g = src ! (13 + 3 * i + 1), b = src ! (13 + 3 * i + 2)\<rparr>))) \<and>
   (files w filename = Some src \<and> 0 < lowest_free (fds w) \<and> length src < 781 \<longrightarrow>
      (case read_palette w filename palette_data of
         (w', status, table) \<Rightarrow>
           \<not> status \<and>
           (stderr_log w' = stderr_log w @ [Unable_to_seek 13 filename] \<or>
            stderr_log w' = stderr_log w @ [Unable_to_read 768 13 filename]))) \<and>
   (fst (snd (read_palette w filename palette_data)) \<longrightarrow>
      (\<exists>src. files w filename = Some src \<and> 781 \<le> length src \<and>
         take 768 (snd (snd (read_palette w filename palette_data))) = take 768 (drop 13 src)))"
proof (intro conjI impI)
  assume h: "files w filename = Some src \<and> seekable w filename \<and> 0 < lowest_free (fds w) \<and>
    781 \<le> length src \<and> length palette_data = 768"
  then have m: "min (length src - 13) 768 = 768" by auto
  have "as_palette (take 768 (drop 13 src)) ! i =
      \<lparr>r = src ! (13 + 3 * i), g = src ! (13 + 3 * i + 1), b = src ! (13 + 3 * i + 2)\<rparr>"
    if "i < 256" for i
  proof -
    from m have "length (take 768 (drop 13 src)) = 768" by simp
    with that have "3 * i + 2 < length (take 768 (drop 13 src))" by arith
    from as_palette_nth [OF this] that h show ?thesis by (simp add: add.commute)
  qed
  with h show "case read_palette w filename palette_data of
      (w', status, table) \<Rightarrow>
        status \<and> table = take 768 (drop 13 src) \<and> length (as_palette table) = 256 \<and>
        (\<forall>i<256. as_palette table ! i =
           \<lparr>r = src ! (13 + 3 * i), g = src ! (13 + 3 * i + 1), b = src ! (13 + 3 * i + 2)\<rparr>)"
    by (simp add: read_palette_seekable length_as_palette m)
next
  assume h: "files w filename = Some src \<and> 0 < lowest_free (fds w) \<and> length src < 781"
  then show "case read_palette w filename palette_data of
      (w', status, table) \<Rightarrow>
        \<not> status \<and>
        (stderr_log w' = stderr_log w @ [Unable_to_seek 13 filename] \<or>
         stderr_log w' = stderr_log w @ [Unable_to_read 768 13 filename])"
    by (cases "seekable w filename") (simp_all add: read_palette_seekable read_palette_pipe)
next
  assume "fst (snd (read_palette w filename palette_data))"
  then show "\<exists>src. files w filename = Some src \<and> 781 \<le> length src \<and>
      take 768 (snd (snd (read_palette w filename palette_data))) = take 768 (drop 13 src)"
    by (rule read_palette_success)
qed


theorem read_palette_correct_witness:
  "files (example_world [''pal.img'' \<mapsto> replicate 13 0 @ map of_nat [0..<768]]) ''pal.img'' =
     Some (replicate 13 0 @ map of_nat [0..<768]) \<and>
   seekable (example_world [''pal.img'' \<mapsto> replicate 13 0 @ map of_nat [0..<768]]) ''pal.img'' \<and>
   0 < lowest_free (fds (example_world [''pal.img'' \<mapsto> replicate 13 0 @ map of_nat [0..<768]])) \<and>
   781 \<le> length (replicate 13 (0 :: byte) @ map of_nat [0..<768]) \<and>
   length (replicate 768 (0 :: byte)) = 768 \<and>
   fst (snd (read_palette (example_world [''pal.img'' \<mapsto> replicate 13 0 @ map of_nat [0..<768]])
               ''pal.img'' (replicate 768 0))) \<and>
   as_palette (snd (snd (read_palette
       (example_world [''pal.img'' \<mapsto> replicate 13 0 @ map of_nat [0..<768]])
       ''pal.img'' (replicate 768 0)))) ! 5 = \<lparr>r = 15, g = 16, b = 17\<rparr> \<and>
   files (example_world [''pal.img'' \<mapsto> [1, 2, 3]]) ''pal.img'' = Some [1, 2, 3] \<and>
   length [1, 2, 3 :: byte] < 781 \<and>
   \<not> fst (snd (read_palette (example_world [''pal.img'' \<mapsto> [1, 2, 3]]) ''pal.img''
                 (replicate 768 0)))"
proof -
  define src :: "byte list" where "src = replicate 13 0 @ map of_nat [0..<768]"
  define W where "W = example_world [''pal.img'' \<mapsto> src]"
  define V where "V = example_world [''pal.img'' \<mapsto> [1, 2, 3]]"
  define buf :: "byte list" where "buf = replicate 768 0"
  have h: "files W ''pal.img'' = Some src \<and> seekable W ''pal.img'' \<and> 0 < lowest_free (fds W) \<and>
      781 \<le> length src \<and> length buf = 768"
    by (simp add: W_def src_def buf_def example_world_def)
  have k: "files V ''pal.img'' = Some [1, 2, 3] \<and> 0 < lowest_free (fds V) \<and>
      length [1, 2, 3 :: byte] < 781"
    by (simp add: V_def example_world_def)
  from read_palette_correct [of W "''pal.img''" src buf] h
  have "fst (snd (read_palette W ''pal.img'' buf)) \<and>
      (\<forall>i<256. as_palette (snd (snd (read_palette W ''pal.img'' buf))) ! i =
         \<lparr>r = src ! (13 + 3 * i), g = src ! (13 + 3 * i + 1), b = src ! (13 + 3 * i + 2)\<rparr>)"
    by (auto simp: split_beta)
  then have ok: "fst (snd (read_palette W ''pal.img'' buf))"
    and "as_palette (snd (snd (read_palette W ''pal.img'' buf))) ! 5 =
      \<lparr>r = src ! (13 + 3 * 5), g = src ! (13 + 3 * 5 + 1), b = src ! (13 + 3 * 5 + 2)\<rparr>"
    by simp_all
  then have e5: "as_palette (snd (snd (read_palette W ''pal.img'' buf))) ! 5 =
      \<lparr>r = 15, g = 16, b = 17\<rparr>"
    by (simp add: src_def nth_append)
  from read_palette_correct [of V "''pal.img''" "[1, 2, 3]" buf] k
  have "\<not> fst (snd (read_palette V ''pal.img'' buf))"
    by (simp add: split_beta)
  with h k ok e5 show ?thesis
    by (simp add: W_def V_def src_def buf_def)
qed

subsection \<open>The archive decoder\<close>

lemma same_env_refl [simp]: "same_env w w"
  by (simp add: same_env_def)

lemma same_env_trans: "same_env w w' \<Longrightarrow> same_env w' w'' \<Longrightarrow> same_env w w''"
  by (simp add: same_env_def)

lemma same_env_eprintf [simp]: "same_env w (eprintf w' m) = same_env w w'"
  by (simp add: same_env_def eprintf_def)

lemma reading_eprintf [simp]: "reading (eprintf w m) n f arc off = reading w n f arc off"
  by (simp add: reading_def eprintf_def)

lemma write_ppm_cases:
  "write_ppm w f i pal data wd ht =
     (if creatable w (ppm_name f i)
      then (w\<lparr>files := (files w)(ppm_name f i \<mapsto>
                 (if accepts_writes w (ppm_name f i)
                  then bytes_of (ppm_text pal data (unat wd) (unat ht)) else [])),
              fds := closed_again (fds w)\<rparr>, True)
      else (eprintf w (Unable_to_open_for_writing (ppm_name f i)), False))"
  by (simp add: write_ppm_ok write_ppm_refused write_ppm_no_open)

lemma sys_read_reading:
  assumes "reading w n f arc off"
  shows "sys_read w (int n) count =
     (w\<lparr>fds := (fds w)[n := Some \<lparr>of_path = f, of_pos = off + length (take count (drop off arc))\<rparr>]\<rparr>,
      int (length (take count (drop off arc))), take count (drop off arc))"
  using assms sys_read_ok [of w n "\<lparr>of_path = f, of_pos = off\<rparr>" arc count]
  by (simp add: reading_def)

lemma reading_after_read:
  assumes "reading w n f arc off"
  shows "reading (w\<lparr>fds := (fds w)[n := Some \<lparr>of_path = f, of_pos = off'\<rparr>]\<rparr>) n f arc off'"
  using assms by (simp add: reading_def fd_lookup_update_nat)

lemma decode_sprite_empty:
  "\<not> nonempty e \<Longrightarrow> decode_sprite w fd f pal e i status = (w, status)"
  by (auto simp: decode_sprite_def nonempty_def)

lemma decode_sprite_read:
  assumes "nonempty e" and "can_alloc w (pixel_count e)" and "reading w n f arc off"
    and "off + pixel_count e \<le> length arc"
  shows "decode_sprite w (int n) f pal e i status =
     (case write_ppm (w\<lparr>fds := (fds w)[n := Some \<lparr>of_path = f, of_pos = off + pixel_count e\<rparr>]\<rparr>)
             f i pal (take (pixel_count e) (drop off arc)) (width e) (height e) of
        (w2, ok) \<Rightarrow> (w2, if \<not> ok then False else status))"
proof -
  from assms(4) have len: "length (take (pixel_count e) (drop off arc)) = pixel_count e"
    by simp
  show ?thesis
    using assms(1,2) sys_read_reading [OF assms(3), of "pixel_count e"]
    by (simp add: decode_sprite_def nonempty_def pixel_count_def [symmetric] len Let_def
          del: length_take)
qed

lemma sprite_loop_step:
  "i < num \<Longrightarrow>
   sprite_loop w fd f pal whd num i st =
     (case decode_sprite w fd f pal (whd ! unat i) i st of
        (w', st') \<Rightarrow> sprite_loop w' fd f pal whd num (i + 1) st')"
  by (subst sprite_loop.simps) simp

lemma sprite_loop_done: "\<not> i < num \<Longrightarrow> sprite_loop w fd f pal whd num i st = (w, st)"
  by (subst sprite_loop.simps) simp

lemma unat_succ:
  fixes i num :: byte
  assumes "i < num"
  shows "unat (i + 1) = Suc (unat i)"
proof -
  from assms have "unat i < unat num"
    by (simp add: word_less_nat_alt)
  moreover have "unat num < 256"
    using unsigned_less [of num, where ?'a = nat] by simp
  ultimately show ?thesis
    by (simp add: unat_word_ariths)
qed

lemma decode_sprite_status: "snd (decode_sprite w fd f pal e i st) \<Longrightarrow> st"
  by (auto simp: decode_sprite_def Let_def split: prod.splits if_splits)

lemma sprite_loop_status: "snd (sprite_loop w fd f pal whd num i st) \<Longrightarrow> st"
proof (induction w fd f pal whd num i st rule: sprite_loop.induct)
  case (1 w fd f pal whd num i st)
  show ?case
  proof (cases "i < num")
    case False
    with "1.prems" show ?thesis by (simp add: sprite_loop_done)
  next
    case True
    obtain w' st' where d: "decode_sprite w fd f pal (whd ! unat i) i st = (w', st')"
      by fastforce
    from "1.prems" True d have "snd (sprite_loop w' fd f pal whd num (i + 1) st')"
      by (simp add: sprite_loop_step)
    from "1.IH" [OF True d [symmetric] this] have st' .
    with d decode_sprite_status [of w fd f pal "whd ! unat i" i st] show ?thesis
      by simp
  qed
qed

lemma sprite_loop_split:
  "i \<le> j \<Longrightarrow> j \<le> num \<Longrightarrow>
   sprite_loop w fd f pal whd num i st =
     (case sprite_loop w fd f pal whd j i st of
        (w', st') \<Rightarrow> sprite_loop w' fd f pal whd num j st')"
proof (induction w fd f pal whd j i st rule: sprite_loop.induct)
  case (1 w fd f pal whd j i st)
  show ?case
  proof (cases "i < j")
    case False
    with "1.prems" have "i = j" by simp
    then show ?thesis by (simp add: sprite_loop_done)
  next
    case True
    with "1.prems" have lt: "i < num" by simp
    obtain w' st' where d: "decode_sprite w fd f pal (whd ! unat i) i st = (w', st')"
      by fastforce
    from True have "i + 1 \<le> j"
      by (simp add: inc_le)
    from "1.IH" [OF True d [symmetric] this "1.prems"(2)] d True lt show ?thesis
      by (simp add: sprite_loop_step)
  qed
qed

lemma payload_offset_Suc:
  "k < length whd \<Longrightarrow>
   payload_offset whd (Suc k) =
     payload_offset whd k + (if nonempty (whd ! k) then pixel_count (whd ! k) else 0)"
  by (simp add: payload_offset_def take_Suc_conv_app_nth)

lemma payload_offset_mono: "k \<le> m \<Longrightarrow> payload_offset whd k \<le> payload_offset whd m"
proof (induction m)
  case 0
  then show ?case by simp
next
  case (Suc m)
  show ?case
  proof (cases "k = Suc m")
    case True
    then show ?thesis by simp
  next
    case False
    with Suc have le: "payload_offset whd k \<le> payload_offset whd m" by simp
    show ?thesis
    proof (cases "m < length whd")
      case True
      with le show ?thesis by (simp add: payload_offset_Suc)
    next
      case False
      then have "take (Suc m) whd = take m whd" by simp
      with le show ?thesis by (simp add: payload_offset_def)
    qed
  qed
qed

lemma length_dec03: "3 \<le> length (dec03 n)"
  by (simp add: dec03_def)

lemma ppm_name_neq:
  assumes "length f \<noteq> 30"
  shows "ppm_name f i \<noteq> f"
proof -
  have "length (ppm_name f i) = min 30 (length f + 5 + length (dec03 (unat i)))"
    by (simp add: ppm_name_def snprintf_def MAX_FILENAME_LEN_def)
  with assms length_dec03 [of "unat i"] have "length (ppm_name f i) \<noteq> length f"
    by arith
  then show ?thesis by auto
qed

lemma sprite_loop_good:
  assumes "unat num \<le> length whd"
    and "payload_offset whd (unat num) \<le> length arc"
    and "length f \<noteq> 30"
    and "\<forall>k<unat num. can_alloc w (pixel_count (whd ! k))"
    and "\<forall>k<unat num. creatable w (ppm_name f (of_nat k)) \<and> accepts_writes w (ppm_name f (of_nat k))"
    and "reading w n f arc (payload_offset whd (unat i))"
    and "i \<le> num"
  shows "\<exists>w'. sprite_loop w (int n) f pal whd num i st = (w', st) \<and>
           reading w' n f arc (payload_offset whd (unat num)) \<and> same_env w w' \<and>
           files w' = fold (\<lambda>k fs. emitted f pal arc whd fs k) [unat i..<unat num] (files w) \<and>
           stderr_log w' = stderr_log w"
  using assms
proof (induction w "int n" f pal whd num i st rule: sprite_loop.induct)
  case (1 w f pal whd num i st)
  show ?case
  proof (cases "i < num")
    case False
    with "1.prems" have "i = num" by simp
    with "1.prems" show ?thesis by (simp add: sprite_loop_done)
  next
    case True
    define k where "k = unat i"
    define e where "e = whd ! k"
    from True have kN: "k < unat num"
      by (simp add: k_def word_less_nat_alt)
    with "1.prems" have kl: "k < length whd" by simp
    have suc: "unat (i + 1) = Suc k"
      using True by (simp add: k_def unat_succ)
    from True have le': "i + 1 \<le> num" by (simp add: inc_le)
    have upt: "[k..<unat num] = k # [Suc k..<unat num]"
      using kN by (simp add: upt_conv_Cons)
    have ik: "of_nat k = i" by (simp add: k_def)
    obtain w1 st1 where d: "decode_sprite w (int n) f pal e i st = (w1, st1)"
      by fastforce
    have step: "st1 = st \<and> reading w1 n f arc (payload_offset whd (Suc k)) \<and> same_env w w1 \<and>
        files w1 = emitted f pal arc whd (files w) k \<and> stderr_log w1 = stderr_log w"
    proof (cases "nonempty e")
      case False
      with d "1.prems" kl show ?thesis
        by (simp add: decode_sprite_empty payload_offset_Suc e_def emitted_def k_def)
    next
      case ne: True
      define off where "off = payload_offset whd k"
      have off': "payload_offset whd (Suc k) = off + pixel_count e"
        using kl ne by (simp add: payload_offset_Suc off_def e_def)
      have "payload_offset whd (Suc k) \<le> payload_offset whd (unat num)"
        using kN by (intro payload_offset_mono) simp
      with off' "1.prems" have fits: "off + pixel_count e \<le> length arc" by simp
      have alloc: "can_alloc w (pixel_count e)"
        using "1.prems" kN by (simp add: e_def)
      have rd: "reading w n f arc off"
        using "1.prems" by (simp add: off_def k_def)
      define w0 where "w0 = w\<lparr>fds := (fds w)[n := Some \<lparr>of_path = f, of_pos = off + pixel_count e\<rparr>]\<rparr>"
      have rd0: "reading w0 n f arc (off + pixel_count e)"
        unfolding w0_def using rd by (rule reading_after_read)
      have cr: "creatable w0 (ppm_name f i)" and ac: "accepts_writes w0 (ppm_name f i)"
        using "1.prems" kN ik by (auto simp: w0_def)
      have "decode_sprite w (int n) f pal e i st =
          (case write_ppm w0 f i pal (take (pixel_count e) (drop off arc)) (width e) (height e) of
             (w2, ok) \<Rightarrow> (w2, if \<not> ok then False else st))"
        unfolding w0_def using ne alloc rd fits by (rule decode_sprite_read)
      with d cr ac have w1: "w1 = w0\<lparr>files := (files w0)(ppm_name f i \<mapsto>
            bytes_of (ppm_text pal (take (pixel_count e) (drop off arc))
              (unat (width e)) (unat (height e)))),
          fds := closed_again (fds w0)\<rparr>" and st1: "st1 = st"
        by (simp_all add: write_ppm_cases)
      have "reading w1 n f arc (off + pixel_count e)"
        using rd0 ppm_name_neq [OF "1.prems"(3), of i] by (simp add: w1 reading_def)
      moreover have "same_env w w1"
        by (simp add: w1 w0_def same_env_def)
      moreover have "files w1 = emitted f pal arc whd (files w) k"
        using ne by (simp add: w1 w0_def emitted_def artifact_def payload_def e_def [symmetric]
            off_def [symmetric] ik)
      moreover have "stderr_log w1 = stderr_log w"
        by (simp add: w1 w0_def)
      ultimately show ?thesis using st1 off' by simp
    qed
    then have st1: "st1 = st" and rd1: "reading w1 n f arc (payload_offset whd (unat (i + 1)))"
      and env1: "same_env w w1" and f1: "files w1 = emitted f pal arc whd (files w) k"
      and log1: "stderr_log w1 = stderr_log w"
      by (simp_all add: suc)
    from env1 "1.prems" have alloc1: "\<forall>k<unat num. can_alloc w1 (pixel_count (whd ! k))"
      and out1: "\<forall>k<unat num. creatable w1 (ppm_name f (of_nat k)) \<and>
          accepts_writes w1 (ppm_name f (of_nat k))"
      by (simp_all add: same_env_def)
    from "1.hyps" [OF True d [unfolded e_def k_def, symmetric] "1.prems"(1,2,3) alloc1 out1 rd1 le']
    obtain w' where loop: "sprite_loop w1 (int n) f pal whd num (i + 1) st1 = (w', st1)"
      and rd': "reading w' n f arc (payload_offset whd (unat num))"
      and env': "same_env w1 w'"
      and f': "files w' = fold (\<lambda>k fs. emitted f pal arc whd fs k) [unat (i + 1)..<unat num] (files w1)"
      and log': "stderr_log w' = stderr_log w1"
      by blast
    have "sprite_loop w (int n) f pal whd num i st = (w', st)"
      using True d loop st1 by (simp add: sprite_loop_step e_def k_def)
    moreover have "same_env w w'"
      using env1 env' by (rule same_env_trans)
    moreover have "files w' = fold (\<lambda>k fs. emitted f pal arc whd fs k) [unat i..<unat num] (files w)"
      using f' f1 upt by (simp add: suc k_def [symmetric])
    ultimately show ?thesis
      using rd' log' log1 by simp
  qed
qed

lemma decode_spr_header:
  assumes src: "files w f = Some (c # rest)" and pos: "0 < lowest_free (fds w)"
    and alloc: "can_alloc w (2 * unat c)" and len: "2 * unat c \<le> length rest"
  shows "decode_spr w f pal =
           sprite_loop (after_header w f c) (int (lowest_free (fds w))) f pal
             (as_pairs (take (2 * unat c) rest)) c 0 True"
    and "reading (after_header w f c) (lowest_free (fds w)) f (c # rest) (1 + 2 * unat c)"
    and "same_env w (after_header w f c)"
    and "files (after_header w f c) = files w"
    and "stderr_log (after_header w f c) = stderr_log w"
proof -
  define n where "n = lowest_free (fds w)"
  define hs where "hs = unat c * 2"
  have hs: "2 * unat c = hs" by (simp add: hs_def)
  define e where "e = \<lparr>of_path = f, of_pos = 0\<rparr>"
  define w1 where "w1 = w\<lparr>fds := install (fds w) n e\<rparr>"
  define w2 where "w2 = w1\<lparr>fds := (fds w1)[n := Some (e\<lparr>of_pos := 1\<rparr>)]\<rparr>"
  define w3 where "w3 = printf w2 (Number_of_sprites (unat c))"
  define w4 where "w4 = w3\<lparr>fds := (fds w3)[n := Some (e\<lparr>of_pos := 1 + hs\<rparr>)]\<rparr>"
  have o: "sys_open w f = (w1, int n)"
    using src by (simp add: sys_open_ok w1_def n_def e_def)
  have l1: "fd_lookup (fds w1) (int n) = Some e"
    by (simp add: w1_def n_def fd_lookup_install)
  have r1: "sys_read w1 (int n) 1 = (w2, 1, [c])"
    using sys_read_ok [OF l1, of "c # rest" 1] src by (simp add: w2_def e_def w1_def)
  have l3: "fd_lookup (fds w3) (int n) = Some (e\<lparr>of_pos := 1\<rparr>)"
    using l1 by (simp add: w3_def printf_def w2_def fd_lookup_update_nat)
  have f3: "files w3 (of_path (e\<lparr>of_pos := 1\<rparr>)) = Some (c # rest)"
    using src by (simp add: w3_def printf_def w2_def w1_def e_def)
  have "length (take hs rest) = hs"
    using len hs by simp
  then have r3: "sys_read w3 (int n) hs = (w4, int hs, take hs rest)"
    using sys_read_ok [OF l3 f3, of hs] by (simp add: w4_def e_def del: length_take)
  have a3: "can_alloc w3 hs"
    using alloc hs by (simp add: w3_def printf_def w2_def w1_def)
  have w4: "w4 = after_header w f c"
    by (simp add: w4_def w3_def printf_def w2_def w1_def after_header_def n_def e_def hs)
  have "decode_spr w f pal = sprite_loop w4 (int n) f pal (as_pairs (take hs rest)) c 0 True"
    unfolding decode_spr_def o using pos r1
    by (simp add: n_def [symmetric] w3_def [symmetric] hs_def [symmetric] r3 a3)
  then show "decode_spr w f pal =
      sprite_loop (after_header w f c) (int (lowest_free (fds w))) f pal
        (as_pairs (take (2 * unat c) rest)) c 0 True"
    by (simp add: w4 n_def hs)
  have "fd_lookup (fds w4) (int n) = Some (e\<lparr>of_pos := 1 + hs\<rparr>)"
    using l3 by (simp add: w4_def fd_lookup_update_nat)
  moreover have "files w4 f = Some (c # rest)"
    using src by (simp add: w4_def w3_def printf_def w2_def w1_def)
  ultimately show "reading (after_header w f c) (lowest_free (fds w)) f (c # rest) (1 + 2 * unat c)"
    by (simp add: reading_def w4 [symmetric] n_def [symmetric] e_def hs)
  show "same_env w (after_header w f c)"
    by (simp add: same_env_def after_header_def)
  show "files (after_header w f c) = files w"
    by (simp add: after_header_def)
  show "stderr_log (after_header w f c) = stderr_log w"
    by (simp add: after_header_def)
qed

lemma fold_emitted_lookup:
  assumes "i \<le> k" and "k < N" and "nonempty (whd ! k)"
    and "\<forall>j. k < j \<and> j < N \<and> nonempty (whd ! j) \<longrightarrow> ppm_name f (of_nat j) \<noteq> ppm_name f (of_nat k)"
  shows "fold (\<lambda>k fs. emitted f pal arc whd fs k) [i..<N] fs (ppm_name f (of_nat k)) =
           Some (artifact pal arc whd k)"
  using assms
proof (induction N)
  case 0
  then show ?case by simp
next
  case (Suc N)
  from Suc.prems have iN: "i \<le> N" by simp
  show ?case
  proof (cases "k = N")
    case True
    with Suc.prems iN show ?thesis by (simp add: emitted_def)
  next
    case False
    with Suc.prems have kN: "k < N" by simp
    from Suc.prems have "\<forall>j. k < j \<and> j < N \<and> nonempty (whd ! j) \<longrightarrow>
        ppm_name f (of_nat j) \<noteq> ppm_name f (of_nat k)"
      by simp
    from Suc.IH [OF Suc.prems(1) kN Suc.prems(3) this]
    have "fold (\<lambda>k fs. emitted f pal arc whd fs k) [i..<N] fs (ppm_name f (of_nat k)) =
        Some (artifact pal arc whd k)" .
    moreover from Suc.prems kN
    have "nonempty (whd ! N) \<Longrightarrow> ppm_name f (of_nat N) \<noteq> ppm_name f (of_nat k)"
      by simp
    ultimately show ?thesis
      using iN by (auto simp: emitted_def)
  qed
qed

lemma length_directory:
  "length (concat (map (\<lambda>(e, p). [width e, height e]) es)) = 2 * length es"
  by (induction es) auto

lemma as_pairs_directory:
  "as_pairs (concat (map (\<lambda>(e, p). [width e, height e]) es) @ bs) = map fst es @ as_pairs bs"
  by (induction es) auto

lemma pixel_count_empty: "\<not> nonempty e \<Longrightarrow> pixel_count e = 0"
  by (auto simp: nonempty_def pixel_count_def)

lemma sum_filter_nonempty:
  "sum_list (map pixel_count (filter nonempty xs)) = sum_list (map pixel_count xs)"
  by (induction xs) (auto simp: pixel_count_empty)

lemma payloads_length:
  assumes "\<forall>k<length es. length (snd (es ! k)) = pixel_count (fst (es ! k))"
  shows "sum_list (map pixel_count (map fst (take m es))) = length (concat (map snd (take m es)))"
proof -
  have "map (pixel_count \<circ> fst) (take m es) = map (length \<circ> snd) (take m es)"
  proof (rule nth_equalityI)
    show "length (map (pixel_count \<circ> fst) (take m es)) = length (map (length \<circ> snd) (take m es))"
      by simp
  next
    fix j
    assume "j < length (map (pixel_count \<circ> fst) (take m es))"
    then have "j < length es" and "j < m" by simp_all
    with assms show "map (pixel_count \<circ> fst) (take m es) ! j = map (length \<circ> snd) (take m es) ! j"
      by simp
  qed
  then have "sum_list (map (pixel_count \<circ> fst) (take m es)) =
      sum_list (map (length \<circ> snd) (take m es))"
    by (rule arg_cong)
  then show ?thesis
    by (simp add: length_concat)
qed

lemma payload_offset_built:
  assumes "\<forall>k<length es. length (snd (es ! k)) = pixel_count (fst (es ! k))"
  shows "payload_offset (map fst es) m = 1 + 2 * length es + length (concat (map snd (take m es)))"
  using payloads_length [OF assms, of m]
  by (simp add: payload_offset_def sum_filter_nonempty take_map)

lemma payload_built:
  assumes len: "\<forall>k<length es. length (snd (es ! k)) = pixel_count (fst (es ! k))"
    and k: "k < length es"
  shows "payload (build_archive es) (map fst es) k = snd (es ! k)"
proof -
  let ?dir = "concat (map (\<lambda>(e, p). [width e, height e]) es)"
  have es: "es = take k es @ es ! k # drop (Suc k) es"
    using k by (simp add: id_take_nth_drop)
  have "concat (map snd es) =
      concat (map snd (take k es)) @ snd (es ! k) @ concat (map snd (drop (Suc k) es))"
    by (subst es) simp
  then have "drop (payload_offset (map fst es) k) (build_archive es) =
      snd (es ! k) @ concat (map snd (drop (Suc k) es))"
    by (simp add: payload_offset_built [OF len] build_archive_def length_directory)
  moreover have "pixel_count (map fst es ! k) = length (snd (es ! k))"
    using len k by simp
  ultimately show ?thesis
    by (simp add: payload_def)
qed

lemma dec_small: "n < 10 \<Longrightarrow> dec n = [digit n]"
  by (subst dec.simps) simp

lemma dec03_digits:
  assumes "n < 1000"
  shows "dec03 n = [digit (n div 100), digit (n div 10 mod 10), digit (n mod 10)]"
proof -
  have zero: "digit 0 = CHR ''0''" by (simp add: digit_def)
  consider "n < 10" | "10 \<le> n" "n < 100" | "100 \<le> n" by linarith
  then show ?thesis
  proof cases
    case 1
    then show ?thesis by (simp add: dec03_def dec_small zero replicate2)
  next
    case 2
    then have "dec n = [digit (n div 10), digit (n mod 10)]"
      by (subst dec.simps) (simp add: dec_small)
    moreover from 2 have "n div 100 = 0" and "n div 10 mod 10 = n div 10" by simp_all
    ultimately show ?thesis by (simp add: dec03_def zero)
  next
    case 3
    with assms have a: "n div 10 div 10 < 10" and b: "\<not> n div 10 < 10" by simp_all
    have "dec (n div 10) = [digit (n div 10 div 10), digit (n div 10 mod 10)]"
      using a b by (subst dec.simps) (simp add: dec_small)
    with 3 have "dec n = [digit (n div 10 div 10), digit (n div 10 mod 10), digit (n mod 10)]"
      by (subst dec.simps) simp
    moreover have "n div 10 div 10 = n div 100" by (simp add: div_mult2_eq [symmetric])
    ultimately show ?thesis by (simp add: dec03_def)
  qed
qed

lemma digit_inj: "m < 10 \<Longrightarrow> n < 10 \<Longrightarrow> digit m = digit n \<Longrightarrow> m = n"
  using nth_eq_iff_index_eq [of "''0123456789''" m n] by (simp add: digit_def)

lemma dec03_inj:
  assumes "m < 1000" and "n < 1000" and "dec03 m = dec03 n"
  shows "m = n"
proof -
  from assms have "digit (m div 100) = digit (n div 100)"
    and "digit (m div 10 mod 10) = digit (n div 10 mod 10)"
    and "digit (m mod 10) = digit (n mod 10)"
    by (simp_all add: dec03_digits)
  with assms have h: "m div 100 = n div 100" and t: "m div 10 mod 10 = n div 10 mod 10"
    and u: "m mod 10 = n mod 10"
    by (auto intro: digit_inj)
  have d: "k div 10 div 10 = k div 100" for k :: nat
    by (simp add: div_mult2_eq [symmetric])
  have "m div 10 = 10 * (m div 10 div 10) + m div 10 mod 10" by simp
  also have "\<dots> = 10 * (n div 10 div 10) + n div 10 mod 10" by (simp only: d h t)
  also have "\<dots> = n div 10" by simp
  finally have "10 * (m div 10) + m mod 10 = 10 * (n div 10) + n mod 10"
    using u by simp
  then show ?thesis by simp
qed

lemma ppm_name_inj:
  assumes "length f \<le> 26" and "ppm_name f i = ppm_name f j"
  shows "i = j"
proof -
  have lt: "unat i < 1000" "unat j < 1000"
    using unsigned_less [of i, where ?'a = nat] unsigned_less [of j, where ?'a = nat] by simp_all
  have cut: "take (length f + 4) (ppm_name f k) = f @ ''_'' @ dec03 (unat k)" for k
  proof -
    have "unat k < 1000"
      using unsigned_less [of k, where ?'a = nat] by simp
    then have "length (dec03 (unat k)) = 3" by (simp add: dec03_digits)
    with assms(1) show ?thesis
      by (simp add: ppm_name_def snprintf_def MAX_FILENAME_LEN_def min_def)
  qed
  from assms(2) have "take (length f + 4) (ppm_name f i) = take (length f + 4) (ppm_name f j)"
    by simp
  then have "dec03 (unat i) = dec03 (unat j)"
    by (simp add: cut)
  with lt have "unat i = unat j" by (rule dec03_inj)
  then show ?thesis by (rule unsigned_word_eqI)
qed

lemma unat_of_nat_byte: "m \<le> 255 \<Longrightarrow> unat (of_nat m :: byte) = m"
  by (simp add: unat_of_nat)

lemma decode_spr_prefix:
  assumes src: "files w f = Some (build_archive es)" and n: "length es \<le> 255"
    and len: "\<forall>k<length es. length (snd (es ! k)) = pixel_count (fst (es ! k))"
    and pos: "0 < lowest_free (fds w)"
    and a0: "can_alloc w (2 * length es)"
    and a1: "\<forall>k<length es. can_alloc w (pixel_count (fst (es ! k)))"
    and out: "\<forall>k<length es. creatable w (ppm_name f (of_nat k)) \<and>
        accepts_writes w (ppm_name f (of_nat k))"
    and f30: "length f \<noteq> 30"
    and m: "m \<le> length es"
  shows "\<exists>w'. sprite_loop (after_header w f (of_nat (length es))) (int (lowest_free (fds w))) f pal
             (map fst es) (of_nat m) 0 True = (w', True) \<and>
           decode_spr w f pal =
             sprite_loop w' (int (lowest_free (fds w))) f pal (map fst es)
               (of_nat (length es)) (of_nat m) True \<and>
           reading w' (lowest_free (fds w)) f (build_archive es) (payload_offset (map fst es) m) \<and>
           files w' = fold (\<lambda>k fs. emitted f pal (build_archive es) (map fst es) fs k) [0..<m] (files w) \<and>
           stderr_log w' = stderr_log w"
proof -
  define c :: byte where "c = of_nat (length es)"
  define rest where "rest = concat (map (\<lambda>(e, p). [width e, height e]) es) @ concat (map snd es)"
  define arc where "arc = build_archive es"
  define whd where "whd = map fst es"
  define fd where "fd = lowest_free (fds w)"
  define w4 where "w4 = after_header w f c"
  have uc: "unat c = length es"
    using n by (simp add: c_def unat_of_nat_byte)
  have um: "unat (of_nat m :: byte) = m"
    using m n by (simp add: unat_of_nat_byte)
  have arc: "arc = c # rest"
    by (simp add: arc_def build_archive_def c_def rest_def)
  have dir: "as_pairs (take (2 * unat c) rest) = whd"
    using as_pairs_directory [of es "[]"] by (simp add: rest_def uc length_directory whd_def)
  have hdr: "2 * unat c \<le> length rest"
    by (simp add: rest_def uc length_directory)
  have src': "files w f = Some (c # rest)" and a0': "can_alloc w (2 * unat c)"
    using src a0 by (simp_all add: arc [symmetric] arc_def uc)
  note H = decode_spr_header [OF src' pos a0' hdr]
  have dec: "decode_spr w f pal = sprite_loop w4 (int fd) f pal whd c 0 True"
    using H(1) [of pal] by (simp add: w4_def fd_def dir)
  have rd4: "reading w4 fd f arc (payload_offset whd (unat (0 :: byte)))"
    using H(2) by (simp add: w4_def fd_def arc payload_offset_def whd_def uc)
  have env4: "same_env w w4"
    using H(3) by (simp add: w4_def)
  have all: "payload_offset whd (length es) = length arc"
    by (simp add: whd_def payload_offset_built [OF len] arc_def build_archive_def length_directory)
  have "payload_offset whd m \<le> payload_offset whd (length es)"
    using m by (rule payload_offset_mono)
  then have fits: "payload_offset whd (unat (of_nat m :: byte)) \<le> length arc"
    by (simp add: um all)
  have lw: "unat (of_nat m :: byte) \<le> length whd"
    using m by (simp add: um whd_def)
  have al: "\<forall>k<unat (of_nat m :: byte). can_alloc w4 (pixel_count (whd ! k))"
    using a1 m env4 by (simp add: um whd_def same_env_def)
  have ou: "\<forall>k<unat (of_nat m :: byte). creatable w4 (ppm_name f (of_nat k)) \<and>
      accepts_writes w4 (ppm_name f (of_nat k))"
    using out m env4 by (simp add: um same_env_def)
  from sprite_loop_good [OF lw fits f30 al ou rd4, of pal True]
  obtain w' where loop: "sprite_loop w4 (int fd) f pal whd (of_nat m) 0 True = (w', True)"
    and rd': "reading w' fd f arc (payload_offset whd m)"
    and f': "files w' = fold (\<lambda>k fs. emitted f pal arc whd fs k) [0..<m] (files w4)"
    and l': "stderr_log w' = stderr_log w4"
    by (auto simp: um)
  have "(of_nat m :: byte) \<le> c"
    using m n by (simp add: c_def word_le_nat_alt unat_of_nat_byte)
  from sprite_loop_split [OF _ this, of 0 w4 "int fd" f pal whd True] loop dec
  have "decode_spr w f pal = sprite_loop w' (int fd) f pal whd c (of_nat m) True"
    by simp
  with loop rd' f' l' H(4,5) show ?thesis
    by (auto simp: w4_def c_def whd_def arc_def fd_def)
qed

lemma decode_spr_built:
  assumes src: "files w f = Some (build_archive es)" and n: "length es \<le> 255"
    and len: "\<forall>k<length es. length (snd (es ! k)) = pixel_count (fst (es ! k))"
    and pos: "0 < lowest_free (fds w)"
    and a0: "can_alloc w (2 * length es)"
    and a1: "\<forall>k<length es. can_alloc w (pixel_count (fst (es ! k)))"
    and out: "\<forall>k<length es. creatable w (ppm_name f (of_nat k)) \<and>
        accepts_writes w (ppm_name f (of_nat k))"
    and f30: "length f \<noteq> 30"
  shows "snd (decode_spr w f pal)"
    and "files (fst (decode_spr w f pal)) =
      fold (\<lambda>k fs. emitted f pal (build_archive es) (map fst es) fs k) [0..<length es] (files w)"
    and "stderr_log (fst (decode_spr w f pal)) = stderr_log w"
proof -
  from decode_spr_prefix [OF assms order_refl, of pal]
  obtain w' where "decode_spr w f pal =
      sprite_loop w' (int (lowest_free (fds w))) f pal (map fst es)
        (of_nat (length es)) (of_nat (length es)) True"
    and "files w' = fold (\<lambda>k fs. emitted f pal (build_archive es) (map fst es) fs k)
        [0..<length es] (files w)"
    and "stderr_log w' = stderr_log w"
    by blast
  then show "snd (decode_spr w f pal)"
    and "files (fst (decode_spr w f pal)) =
      fold (\<lambda>k fs. emitted f pal (build_archive es) (map fst es) fs k) [0..<length es] (files w)"
    and "stderr_log (fst (decode_spr w f pal)) = stderr_log w"
    by (simp_all add: sprite_loop_done)
qed

text \<open>
  Claim C1, as amended. Let the archive be built from a count, a directory and payloads
  whose lengths match the directory, and let it be decoded in a world where the file
  opens on a positive descriptor and every allocation and every output file succeeds.
  Then \<open>decode_spr\<close> returns success, and for every non-empty entry the file under the
  name the program builds for it holds the plain pixel map of exactly that entry's
  payload, pixel by pixel in order, each looked up in the palette, provided the name is
  not built again for a later non-empty entry. That is so for every entry when the path
  of the archive has at most 26 characters. (The name is the first 30 characters of
  \<open><path>_<NNN>.ppm\<close>; a path of exactly 30 characters would make the program overwrite
  the archive itself and is excluded.)
\<close>

theorem decode_spr_roundtrip:
  assumes "files w f = Some (build_archive es)" and "length es \<le> 255"
    and "\<forall>k<length es. length (snd (es ! k)) = pixel_count (fst (es ! k))"
    and "0 < lowest_free (fds w)"
    and "can_alloc w (2 * length es)"
    and "\<forall>k<length es. can_alloc w (pixel_count (fst (es ! k)))"
    and "\<forall>k<length es. creatable w (ppm_name f (of_nat k)) \<and>
        accepts_writes w (ppm_name f (of_nat k))"
    and "length f \<noteq> 30"
  shows "snd (decode_spr w f pal) \<and>
    (\<forall>k<length es.
       nonempty (fst (es ! k)) \<and>
       (length f \<le> 26 \<or>
        (\<forall>j. k < j \<and> j < length es \<and> nonempty (fst (es ! j)) \<longrightarrow>
             ppm_name f (of_nat j) \<noteq> ppm_name f (of_nat k))) \<longrightarrow>
       files (fst (decode_spr w f pal)) (ppm_name f (of_nat k)) =
         Some (bytes_of (ppm_text pal (snd (es ! k))
                 (unat (width (fst (es ! k)))) (unat (height (fst (es ! k)))))))"
proof (intro conjI allI impI)
  show "snd (decode_spr w f pal)"
    using assms by (rule decode_spr_built)
next
  fix k
  assume k: "k < length es"
    and h: "nonempty (fst (es ! k)) \<and>
      (length f \<le> 26 \<or>
       (\<forall>j. k < j \<and> j < length es \<and> nonempty (fst (es ! j)) \<longrightarrow>
            ppm_name f (of_nat j) \<noteq> ppm_name f (of_nat k)))"
  have later: "ppm_name f (of_nat j) \<noteq> ppm_name f (of_nat k)"
    if "k < j" and "j < length es" and "nonempty (fst (es ! j))" for j
  proof (cases "length f \<le> 26")
    case False
    with h that show ?thesis by blast
  next
    case True
    from that assms(2) k have "unat (of_nat j :: byte) = j" and "unat (of_nat k :: byte) = k"
      by (simp_all add: unat_of_nat_byte)
    with that have "(of_nat j :: byte) \<noteq> of_nat k" by auto
    with ppm_name_inj [OF True] show ?thesis by blast
  qed
  have "fold (\<lambda>k fs. emitted f pal (build_archive es) (map fst es) fs k) [0..<length es] (files w)
      (ppm_name f (of_nat k)) = Some (artifact pal (build_archive es) (map fst es) k)"
  proof (rule fold_emitted_lookup)
    show "0 \<le> k" by simp
    show "k < length es" by (rule k)
    show "nonempty (map fst es ! k)" using h k by simp
    show "\<forall>j. k < j \<and> j < length es \<and> nonempty (map fst es ! j) \<longrightarrow>
        ppm_name f (of_nat j) \<noteq> ppm_name f (of_nat k)"
      using later by auto
  qed
  then show "files (fst (decode_spr w f pal)) (ppm_name f (of_nat k)) =
      Some (bytes_of (ppm_text pal (snd (es ! k))
              (unat (width (fst (es ! k)))) (unat (height (fst (es ! k))))))"
    using k by (simp add: decode_spr_built(2) [OF assms] artifact_def payload_built [OF assms(3)])
qed

lemma example_archive:
  "build_archive [(\<lparr>width = 0, height = 5\<rparr>, []), (\<lparr>width = 4, height = 2\<rparr>, [0, 1, 2, 3, 4, 5, 6, 7])] =
     [2, 0, 5, 4, 2, 0, 1, 2, 3, 4, 5, 6, 7]"
  by (simp add: build_archive_def)

theorem decode_spr_roundtrip_witness:
  "files (example_world [''a.spr'' \<mapsto> [2, 0, 5, 4, 2, 0, 1, 2, 3, 4, 5, 6, 7]]) ''a.spr'' =
     Some (build_archive [(\<lparr>width = 0, height = 5\<rparr>, []),
                          (\<lparr>width = 4, height = 2\<rparr>, [0, 1, 2, 3, 4, 5, 6, 7])]) \<and>
   snd (decode_spr (example_world [''a.spr'' \<mapsto> [2, 0, 5, 4, 2, 0, 1, 2, 3, 4, 5, 6, 7]])
          ''a.spr'' grey_palette) \<and>
   files (fst (decode_spr (example_world [''a.spr'' \<mapsto> [2, 0, 5, 4, 2, 0, 1, 2, 3, 4, 5, 6, 7]])
                 ''a.spr'' grey_palette)) ''a.spr_001.ppm'' =
     Some (bytes_of
       (''P3'' @ newline @ ''4 2'' @ newline @ ''255'' @ newline
          @ ''000 000 000   001 001 001   002 002 002   003 003 003   '' @ newline
          @ ''004 004 004   005 005 005   006 006 006   007 007 007   ''))"
proof -
  define es :: "(width_height_pair \<times> byte list) list"
    where "es = [(\<lparr>width = 0, height = 5\<rparr>, []), (\<lparr>width = 4, height = 2\<rparr>, [0, 1, 2, 3, 4, 5, 6, 7])]"
  define W where "W = example_world [''a.spr'' \<mapsto> [2, 0, 5, 4, 2, 0, 1, 2, 3, 4, 5, 6, 7]]"
  have arc: "build_archive es = [2, 0, 5, 4, 2, 0, 1, 2, 3, 4, 5, 6, 7]"
    unfolding es_def by (rule example_archive)
  have name: "ppm_name ''a.spr'' 1 = ''a.spr_001.ppm''"
    by (simp add: ppm_name_def snprintf_def MAX_FILENAME_LEN_def dec03_def dec.simps digit_def
          replicate2)
  have 1: "files W ''a.spr'' = Some (build_archive es)"
    by (simp add: W_def example_world_def arc)
  have 2: "length es \<le> 255" by (simp add: es_def)
  have 3: "\<forall>k<length es. length (snd (es ! k)) = pixel_count (fst (es ! k))"
  proof (intro allI impI)
    fix k
    assume "k < length es"
    then have "k = 0 \<or> k = 1" by (auto simp: es_def)
    then show "length (snd (es ! k)) = pixel_count (fst (es ! k))"
      by (auto simp: es_def pixel_count_def)
  qed
  have 4: "0 < lowest_free (fds W)" by (simp add: W_def example_world_def)
  have 5: "can_alloc W (2 * length es)" by (simp add: W_def example_world_def)
  have 6: "\<forall>k<length es. can_alloc W (pixel_count (fst (es ! k)))"
    by (simp add: W_def example_world_def)
  have 7: "\<forall>k<length es. creatable W (ppm_name ''a.spr'' (of_nat k)) \<and>
      accepts_writes W (ppm_name ''a.spr'' (of_nat k))"
    by (simp add: W_def example_world_def)
  have 8: "length ''a.spr'' \<noteq> 30" by simp
  note T = decode_spr_roundtrip [OF 1 2 3 4 5 6 7 8, of grey_palette]
  from T have ok: "snd (decode_spr W ''a.spr'' grey_palette)" by simp
  from T have "1 < length es \<and> nonempty (fst (es ! 1)) \<and> length ''a.spr'' \<le> 26 \<longrightarrow>
    files (fst (decode_spr W ''a.spr'' grey_palette)) (ppm_name ''a.spr'' (of_nat 1)) =
      Some (bytes_of (ppm_text grey_palette (snd (es ! 1))
              (unat (width (fst (es ! 1)))) (unat (height (fst (es ! 1))))))"
    by blast
  then have "files (fst (decode_spr W ''a.spr'' grey_palette)) ''a.spr_001.ppm'' =
      Some (bytes_of (ppm_text grey_palette [0, 1, 2, 3, 4, 5, 6, 7] 4 2))"
    by (simp add: es_def nonempty_def name)
  with ok 1 show ?thesis
    by (simp only: ppm_text_example W_def arc es_def [symmetric])
qed

theorem decode_spr_roundtrip_counterexample:
  "files (example_world [''aaaaaaaaaaaaaaaaaaaaaaaaaaaaaaa'' \<mapsto> [2, 1, 1, 1, 1, 1, 2]])
       ''aaaaaaaaaaaaaaaaaaaaaaaaaaaaaaa'' =
     Some (build_archive [(\<lparr>width = 1, height = 1\<rparr>, [1]), (\<lparr>width = 1, height = 1\<rparr>, [2])]) \<and>
   snd (decode_spr (example_world [''aaaaaaaaaaaaaaaaaaaaaaaaaaaaaaa'' \<mapsto> [2, 1, 1, 1, 1, 1, 2]])
          ''aaaaaaaaaaaaaaaaaaaaaaaaaaaaaaa'' grey_palette) \<and>
   ppm_name ''aaaaaaaaaaaaaaaaaaaaaaaaaaaaaaa'' 0 = ''aaaaaaaaaaaaaaaaaaaaaaaaaaaaaa'' \<and>
   ppm_name ''aaaaaaaaaaaaaaaaaaaaaaaaaaaaaaa'' 1 = ''aaaaaaaaaaaaaaaaaaaaaaaaaaaaaa'' \<and>
   files (fst (decode_spr (example_world [''aaaaaaaaaaaaaaaaaaaaaaaaaaaaaaa'' \<mapsto> [2, 1, 1, 1, 1, 1, 2]])
                 ''aaaaaaaaaaaaaaaaaaaaaaaaaaaaaaa'' grey_palette))
       (ppm_name ''aaaaaaaaaaaaaaaaaaaaaaaaaaaaaaa'' 0) =
     Some (bytes_of (ppm_text grey_palette [2] 1 1)) \<and>
   bytes_of (ppm_text grey_palette [2] 1 1) \<noteq> bytes_of (ppm_text grey_palette [1] 1 1)"
proof -
  define P where "P = ''aaaaaaaaaaaaaaaaaaaaaaaaaaaaaaa''"
  define es :: "(width_height_pair \<times> byte list) list"
    where "es = [(\<lparr>width = 1, height = 1\<rparr>, [1]), (\<lparr>width = 1, height = 1\<rparr>, [2])]"
  define W where "W = example_world [P \<mapsto> [2, 1, 1, 1, 1, 1, 2]]"
  have arc: "build_archive es = [2, 1, 1, 1, 1, 1, 2]"
    by (simp add: es_def build_archive_def)
  have name0: "ppm_name P 0 = ''aaaaaaaaaaaaaaaaaaaaaaaaaaaaaa''"
    and name1: "ppm_name P 1 = ''aaaaaaaaaaaaaaaaaaaaaaaaaaaaaa''"
    by (simp_all add: P_def ppm_name_def snprintf_def MAX_FILENAME_LEN_def)
  have 1: "files W P = Some (build_archive es)"
    by (simp add: W_def example_world_def arc)
  have 2: "length es \<le> 255" by (simp add: es_def)
  have 3: "\<forall>k<length es. length (snd (es ! k)) = pixel_count (fst (es ! k))"
  proof (intro allI impI)
    fix k
    assume "k < length es"
    then have "k = 0 \<or> k = 1" by (auto simp: es_def)
    then show "length (snd (es ! k)) = pixel_count (fst (es ! k))"
      by (auto simp: es_def pixel_count_def)
  qed
  have 4: "0 < lowest_free (fds W)" by (simp add: W_def example_world_def)
  have 5: "can_alloc W (2 * length es)" by (simp add: W_def example_world_def)
  have 6: "\<forall>k<length es. can_alloc W (pixel_count (fst (es ! k)))"
    by (simp add: W_def example_world_def)
  have 7: "\<forall>k<length es. creatable W (ppm_name P (of_nat k)) \<and>
      accepts_writes W (ppm_name P (of_nat k))"
    by (simp add: W_def example_world_def)
  have 8: "length P \<noteq> 30" by (simp add: P_def)
  note B = decode_spr_built [OF 1 2 3 4 5 6 7 8, of grey_palette]
  have upt2: "[0..<length es] = [0, 1]"
    by (simp add: es_def upt_rec)
  have p1: "payload (build_archive es) (map fst es) 1 = [2]"
    using payload_built [OF 3, of 1] by (simp add: es_def)
  have ne: "nonempty (map fst es ! 0)" "nonempty (map fst es ! 1)"
    and wh: "unat (width (map fst es ! 1)) = 1" "unat (height (map fst es ! 1)) = 1"
    by (simp_all add: es_def nonempty_def)
  have "files (fst (decode_spr W P grey_palette)) =
      emitted P grey_palette (build_archive es) (map fst es)
        (emitted P grey_palette (build_archive es) (map fst es) (files W) 0) 1"
    by (simp add: B(2) upt2)
  then have "files (fst (decode_spr W P grey_palette)) (ppm_name P 0) =
      Some (artifact grey_palette (build_archive es) (map fst es) 1)"
    using ne by (simp add: emitted_def name0 name1)
  then have "files (fst (decode_spr W P grey_palette)) (ppm_name P 0) =
      Some (bytes_of (ppm_text grey_palette [2] 1 1))"
    by (simp only: artifact_def p1 wh)
  moreover have "bytes_of (ppm_text grey_palette [2] 1 1) \<noteq> bytes_of (ppm_text grey_palette [1] 1 1)"
    by (simp add: ppm_text_def pixels_text_def pixel_text_def triplet_def dec03_def dec.simps
          digit_def grey_palette_def replicate2)
  ultimately show ?thesis
    using B(1) 1 name0 name1 by (simp add: W_def P_def arc es_def [symmetric])
qed

lemma decode_spr_count_zero:
  assumes "files w f = Some (0 # rest)" and "0 < lowest_free (fds w)" and "can_alloc w 0"
  shows "decode_spr w f pal = (after_header w f 0, True)"
proof -
  have "can_alloc w (2 * unat (0 :: byte))" and "2 * unat (0 :: byte) \<le> length rest"
    using assms by simp_all
  from decode_spr_header(1) [OF assms(1,2) this, of pal] show ?thesis
    by (simp add: sprite_loop_done)
qed

text \<open>
  Claim C6. When the file opens on a positive descriptor, its first byte is 0 and
  \<open>malloc(0)\<close> returns a buffer (as it does on the platforms the program was written
  for), \<open>decode_spr\<close> returns success, creates or changes no file, and reports no error.
\<close>

theorem decode_spr_empty_archive:
  assumes "files w f = Some (0 # rest)" and "0 < lowest_free (fds w)" and "can_alloc w 0"
  shows "snd (decode_spr w f pal) \<and> files (fst (decode_spr w f pal)) = files w \<and>
         stderr_log (fst (decode_spr w f pal)) = stderr_log w"
  by (simp add: decode_spr_count_zero [OF assms] after_header_def)

theorem decode_spr_empty_archive_witness:
  "files (example_world [''a.spr'' \<mapsto> [0]]) ''a.spr'' = Some (0 # []) \<and>
   0 < lowest_free (fds (example_world [''a.spr'' \<mapsto> [0]])) \<and>
   can_alloc (example_world [''a.spr'' \<mapsto> [0]]) 0 \<and>
   snd (decode_spr (example_world [''a.spr'' \<mapsto> [0]]) ''a.spr'' grey_palette) \<and>
   files (fst (decode_spr (example_world [''a.spr'' \<mapsto> [0]]) ''a.spr'' grey_palette)) =
     [''a.spr'' \<mapsto> [0]]"
proof -
  have 1: "files (example_world [''a.spr'' \<mapsto> [0]]) ''a.spr'' = Some (0 # [])"
    and 2: "0 < lowest_free (fds (example_world [''a.spr'' \<mapsto> [0]]))"
    and 3: "can_alloc (example_world [''a.spr'' \<mapsto> [0]]) 0"
    by (simp_all add: example_world_def)
  from decode_spr_empty_archive [OF 1 2 3, of grey_palette] 1 2 3 show ?thesis
    by (simp add: example_world_def)
qed

text \<open>
  Claim C4. A directory entry whose width or height is 0 changes nothing at all: the
  loop body returns the world and the status it was given, so it reads no byte and
  creates no file, and the loop goes on with the next entry from the very same state.
  In the decode of a well-formed archive (in a world where the allocations and the output
  files succeed), entry \<open>m\<close> is therefore reached with the descriptor at
  \<open>payload_offset\<close>: the header, the directory and the payloads of the preceding
  non-empty entries, and nothing for the empty ones.
\<close>

theorem empty_entry_skipped:
  "(width e = 0 \<or> height e = 0 \<longrightarrow> decode_sprite w fd f pal e i st = (w, st)) \<and>
   (i < num \<and> (width (whd ! unat i) = 0 \<or> height (whd ! unat i) = 0) \<longrightarrow>
      sprite_loop w fd f pal whd num i st = sprite_loop w fd f pal whd num (i + 1) st) \<and>
   (files w f = Some (build_archive es) \<and> length es \<le> 255 \<and>
    (\<forall>k<length es. length (snd (es ! k)) = pixel_count (fst (es ! k))) \<and>
    0 < lowest_free (fds w) \<and> can_alloc w (2 * length es) \<and>
    (\<forall>k<length es. can_alloc w (pixel_count (fst (es ! k)))) \<and>
    (\<forall>k<length es. creatable w (ppm_name f (of_nat k)) \<and>
        accepts_writes w (ppm_name f (of_nat k))) \<and>
    length f \<noteq> 30 \<longrightarrow>
      (\<forall>m\<le>length es. \<exists>wm.
         decode_spr w f pal =
           sprite_loop wm (int (lowest_free (fds w))) f pal (map fst es)
             (of_nat (length es)) (of_nat m) True \<and>
         fd_lookup (fds wm) (int (lowest_free (fds w))) =
           Some \<lparr>of_path = f, of_pos = payload_offset (map fst es) m\<rparr>))"
proof (intro conjI impI allI)
  assume "width e = 0 \<or> height e = 0"
  then show "decode_sprite w fd f pal e i st = (w, st)"
    by (auto simp: decode_sprite_def)
next
  assume "i < num \<and> (width (whd ! unat i) = 0 \<or> height (whd ! unat i) = 0)"
  then show "sprite_loop w fd f pal whd num i st = sprite_loop w fd f pal whd num (i + 1) st"
    by (auto simp: sprite_loop_step decode_sprite_def)
next
  fix m
  assume h: "files w f = Some (build_archive es) \<and> length es \<le> 255 \<and>
    (\<forall>k<length es. length (snd (es ! k)) = pixel_count (fst (es ! k))) \<and>
    0 < lowest_free (fds w) \<and> can_alloc w (2 * length es) \<and>
    (\<forall>k<length es. can_alloc w (pixel_count (fst (es ! k)))) \<and>
    (\<forall>k<length es. creatable w (ppm_name f (of_nat k)) \<and>
        accepts_writes w (ppm_name f (of_nat k))) \<and>
    length f \<noteq> 30"
    and m: "m \<le> length es"
  from h have 1: "files w f = Some (build_archive es)" and 2: "length es \<le> 255"
    and 3: "\<forall>k<length es. length (snd (es ! k)) = pixel_count (fst (es ! k))"
    and 4: "0 < lowest_free (fds w)" and 5: "can_alloc w (2 * length es)"
    and 6: "\<forall>k<length es. can_alloc w (pixel_count (fst (es ! k)))"
    and 7: "\<forall>k<length es. creatable w (ppm_name f (of_nat k)) \<and>
        accepts_writes w (ppm_name f (of_nat k))"
    and 8: "length f \<noteq> 30"
    by blast+
  from decode_spr_prefix [OF 1 2 3 4 5 6 7 8 m, of pal]
  show "\<exists>wm. decode_spr w f pal =
      sprite_loop wm (int (lowest_free (fds w))) f pal (map fst es)
        (of_nat (length es)) (of_nat m) True \<and>
      fd_lookup (fds wm) (int (lowest_free (fds w))) =
        Some \<lparr>of_path = f, of_pos = payload_offset (map fst es) m\<rparr>"
    by (auto simp: reading_def)
qed

theorem empty_entry_skipped_witness:
  "decode_sprite (example_world [''a.spr'' \<mapsto> [2, 0, 5, 4, 2, 0, 1, 2, 3, 4, 5, 6, 7]]) 3 ''a.spr''
       grey_palette \<lparr>width = 0, height = 5\<rparr> 0 True =
     (example_world [''a.spr'' \<mapsto> [2, 0, 5, 4, 2, 0, 1, 2, 3, 4, 5, 6, 7]], True) \<and>
   sprite_loop (example_world [''a.spr'' \<mapsto> [2, 0, 5, 4, 2, 0, 1, 2, 3, 4, 5, 6, 7]]) 3 ''a.spr''
       grey_palette [\<lparr>width = 0, height = 5\<rparr>, \<lparr>width = 4, height = 2\<rparr>] 2 0 True =
     sprite_loop (example_world [''a.spr'' \<mapsto> [2, 0, 5, 4, 2, 0, 1, 2, 3, 4, 5, 6, 7]]) 3 ''a.spr''
       grey_palette [\<lparr>width = 0, height = 5\<rparr>, \<lparr>width = 4, height = 2\<rparr>] 2 1 True \<and>
   (\<exists>wm. decode_spr (example_world [''a.spr'' \<mapsto> [2, 0, 5, 4, 2, 0, 1, 2, 3, 4, 5, 6, 7]])
            ''a.spr'' grey_palette =
          sprite_loop wm 3 ''a.spr'' grey_palette
            [\<lparr>width = 0, height = 5\<rparr>, \<lparr>width = 4, height = 2\<rparr>] 2 1 True \<and>
        fd_lookup (fds wm) 3 = Some \<lparr>of_path = ''a.spr'', of_pos = 5\<rparr>)"
proof -
  define es :: "(width_height_pair \<times> byte list) list"
    where "es = [(\<lparr>width = 0, height = 5\<rparr>, []), (\<lparr>width = 4, height = 2\<rparr>, [0, 1, 2, 3, 4, 5, 6, 7])]"
  define W where "W = example_world [''a.spr'' \<mapsto> [2, 0, 5, 4, 2, 0, 1, 2, 3, 4, 5, 6, 7]]"
  define whd where "whd = [\<lparr>width = 0, height = 5\<rparr>, \<lparr>width = 4, height = 2 :: byte\<rparr>]"
  have arc: "build_archive es = [2, 0, 5, 4, 2, 0, 1, 2, 3, 4, 5, 6, 7]"
    unfolding es_def by (rule example_archive)
  have whd: "map fst es = whd" by (simp add: es_def whd_def)
  have len: "\<forall>k<length es. length (snd (es ! k)) = pixel_count (fst (es ! k))"
  proof (intro allI impI)
    fix k
    assume "k < length es"
    then have "k = 0 \<or> k = 1" by (auto simp: es_def)
    then show "length (snd (es ! k)) = pixel_count (fst (es ! k))"
      by (auto simp: es_def pixel_count_def)
  qed
  have fd: "lowest_free (fds W) = 3" by (simp add: W_def example_world_def)
  have off: "payload_offset whd (Suc 0) = 5"
    by (simp add: payload_offset_def whd_def nonempty_def)
  note T = empty_entry_skipped [of "\<lparr>width = 0, height = 5\<rparr>" W 3 "''a.spr''" grey_palette 0 True
      2 whd es]
  from T have a: "decode_sprite W 3 ''a.spr'' grey_palette \<lparr>width = 0, height = 5\<rparr> 0 True = (W, True)"
    by simp
  from T have b: "sprite_loop W 3 ''a.spr'' grey_palette whd 2 0 True =
      sprite_loop W 3 ''a.spr'' grey_palette whd 2 1 True"
    by (simp add: whd_def)
  have "files W ''a.spr'' = Some (build_archive es) \<and> length es \<le> 255 \<and>
    (\<forall>k<length es. length (snd (es ! k)) = pixel_count (fst (es ! k))) \<and>
    0 < lowest_free (fds W) \<and> can_alloc W (2 * length es) \<and>
    (\<forall>k<length es. can_alloc W (pixel_count (fst (es ! k)))) \<and>
    (\<forall>k<length es. creatable W (ppm_name ''a.spr'' (of_nat k)) \<and>
        accepts_writes W (ppm_name ''a.spr'' (of_nat k))) \<and>
    length ''a.spr'' \<noteq> 30"
    using len by (simp add: W_def example_world_def arc) (simp add: es_def)
  with T have "\<forall>m\<le>length es. \<exists>wm.
      decode_spr W ''a.spr'' grey_palette =
        sprite_loop wm (int (lowest_free (fds W))) ''a.spr'' grey_palette (map fst es)
          (of_nat (length es)) (of_nat m) True \<and>
      fd_lookup (fds wm) (int (lowest_free (fds W))) =
        Some \<lparr>of_path = ''a.spr'', of_pos = payload_offset (map fst es) m\<rparr>"
    by blast
  moreover have "1 \<le> length es" by (simp add: es_def)
  ultimately have "\<exists>wm. decode_spr W ''a.spr'' grey_palette =
        sprite_loop wm (int (lowest_free (fds W))) ''a.spr'' grey_palette (map fst es)
          (of_nat (length es)) (of_nat 1) True \<and>
      fd_lookup (fds wm) (int (lowest_free (fds W))) =
        Some \<lparr>of_path = ''a.spr'', of_pos = payload_offset (map fst es) 1\<rparr>"
    by blast
  then have c: "\<exists>wm. decode_spr W ''a.spr'' grey_palette =
        sprite_loop wm 3 ''a.spr'' grey_palette whd 2 1 True \<and>
      fd_lookup (fds wm) 3 = Some \<lparr>of_path = ''a.spr'', of_pos = 5\<rparr>"
    by (simp add: fd whd off) (simp add: es_def)
  from a b c show ?thesis
    by (simp only: W_def whd_def)
qed

subsection \<open>Short reads and partial failure\<close>

lemma decode_sprite_unfold:
  "decode_sprite w fd f pal e i st =
     (if nonempty e
      then if can_alloc w (pixel_count e)
           then if fst (snd (sys_read w fd (pixel_count e))) = int (pixel_count e)
                then (fst (write_ppm (fst (sys_read w fd (pixel_count e))) f i pal
                             (snd (snd (sys_read w fd (pixel_count e)))) (width e) (height e)),
                      snd (write_ppm (fst (sys_read w fd (pixel_count e))) f i pal
                             (snd (snd (sys_read w fd (pixel_count e)))) (width e) (height e)) \<and> st)
                else (eprintf (fst (sys_read w fd (pixel_count e)))
                        (Failed_to_read_pixel_data (pixel_count e) f), False)
           else (eprintf w (Failed_to_allocate_sprite (pixel_count e) (unat i)), False)
      else (w, st))"
  by (auto simp: decode_sprite_def nonempty_def pixel_count_def Let_def split: prod.splits)

lemma decode_sprite_status_True:
  "snd (decode_sprite w fd f pal e i st) \<Longrightarrow> snd (decode_sprite w fd f pal e i True)"
  by (simp add: decode_sprite_unfold split: if_splits)

lemma sprite_loop_False: "\<not> snd (sprite_loop w fd f pal whd num i False)"
  using sprite_loop_status [of w fd f pal whd num i False] by blast

text \<open>
  Claim C3. Let the loop stand at a non-empty entry whose buffer was allocated and
  whose \<open>read\<close> returns anything but the full \<open>width * height\<close> bytes.
  \<^item> The loop reports \<open>Failed_to_read_pixel_data\<close>, sets the status to failure and goes on
    with the next entry, in the world the short \<open>read\<close> left; the result of the loop is
    failure.
  \<^item> If the loop returns success, then the status it started with was success and every
    entry, run from the state in which the loop reached it, succeeds;
  \<^item> and one entry succeeds exactly when it is empty or its buffer was allocated, its
    \<open>read\<close> was complete and its \<open>write_ppm\<close> succeeded.
  \<^item> When \<open>decode_spr\<close> returns success, its result is the result of this loop.
\<close>

theorem short_read_continues:
  "(i < num \<and> nonempty (whd ! unat i) \<and> can_alloc w (pixel_count (whd ! unat i)) \<and>
    fst (snd (sys_read w fd (pixel_count (whd ! unat i)))) \<noteq> int (pixel_count (whd ! unat i)) \<longrightarrow>
      sprite_loop w fd f pal whd num i st =
        sprite_loop
          (eprintf (fst (sys_read w fd (pixel_count (whd ! unat i))))
             (Failed_to_read_pixel_data (pixel_count (whd ! unat i)) f))
          fd f pal whd num (i + 1) False \<and>
      \<not> snd (sprite_loop w fd f pal whd num i st)) \<and>
   (snd (sprite_loop w fd f pal whd num i st) \<longrightarrow>
      st \<and>
      (\<forall>j. i \<le> j \<and> j < num \<longrightarrow>
         snd (decode_sprite (fst (sprite_loop w fd f pal whd j i st)) fd f pal (whd ! unat j) j True))) \<and>
   (snd (decode_sprite w fd f pal e i True) =
      (nonempty e \<longrightarrow>
         can_alloc w (pixel_count e) \<and>
         fst (snd (sys_read w fd (pixel_count e))) = int (pixel_count e) \<and>
         snd (write_ppm (fst (sys_read w fd (pixel_count e))) f i pal
                (snd (snd (sys_read w fd (pixel_count e)))) (width e) (height e)))) \<and>
   (snd (decode_spr w f pal) \<longrightarrow>
      (\<exists>w4 fd whd num. decode_spr w f pal = sprite_loop w4 fd f pal whd num 0 True))"
proof (intro conjI impI allI)
  assume h: "i < num \<and> nonempty (whd ! unat i) \<and> can_alloc w (pixel_count (whd ! unat i)) \<and>
    fst (snd (sys_read w fd (pixel_count (whd ! unat i)))) \<noteq> int (pixel_count (whd ! unat i))"
  then show eq: "sprite_loop w fd f pal whd num i st =
      sprite_loop
        (eprintf (fst (sys_read w fd (pixel_count (whd ! unat i))))
           (Failed_to_read_pixel_data (pixel_count (whd ! unat i)) f))
        fd f pal whd num (i + 1) False"
    by (simp add: sprite_loop_step decode_sprite_unfold)
  show "\<not> snd (sprite_loop w fd f pal whd num i st)"
    unfolding eq by (rule sprite_loop_False)
next
  assume "snd (sprite_loop w fd f pal whd num i st)"
  then show st by (rule sprite_loop_status)
next
  fix j
  assume ok: "snd (sprite_loop w fd f pal whd num i st)" and j: "i \<le> j \<and> j < num"
  obtain wj stj where pre: "sprite_loop w fd f pal whd j i st = (wj, stj)"
    by fastforce
  obtain w' st' where d: "decode_sprite wj fd f pal (whd ! unat j) j stj = (w', st')"
    by fastforce
  from j have "j \<le> num" by auto
  with j pre have "sprite_loop w fd f pal whd num i st = sprite_loop wj fd f pal whd num j stj"
    by (simp add: sprite_loop_split [of i j num])
  with j d have "sprite_loop w fd f pal whd num i st = sprite_loop w' fd f pal whd num (j + 1) st'"
    by (simp add: sprite_loop_step)
  with ok have "snd (sprite_loop w' fd f pal whd num (j + 1) st')" by simp
  then have st' by (rule sprite_loop_status)
  with d have "snd (decode_sprite wj fd f pal (whd ! unat j) j stj)" by simp
  then have "snd (decode_sprite wj fd f pal (whd ! unat j) j True)"
    by (rule decode_sprite_status_True)
  with pre show "snd (decode_sprite (fst (sprite_loop w fd f pal whd j i st)) fd f pal
      (whd ! unat j) j True)"
    by simp
next
  show "snd (decode_sprite w fd f pal e i True) =
      (nonempty e \<longrightarrow>
         can_alloc w (pixel_count e) \<and>
         fst (snd (sys_read w fd (pixel_count e))) = int (pixel_count e) \<and>
         snd (write_ppm (fst (sys_read w fd (pixel_count e))) f i pal
                (snd (snd (sys_read w fd (pixel_count e)))) (width e) (height e)))"
    by (simp add: decode_sprite_unfold)
next
  assume "snd (decode_spr w f pal)"
  then show "\<exists>w4 fd whd num. decode_spr w f pal = sprite_loop w4 fd f pal whd num 0 True"
    by (auto simp: decode_spr_def Let_def split: prod.splits if_splits)
qed

lemma sys_read_frame:
  "stderr_log (fst (sys_read w fd n)) = stderr_log w"
  "files (fst (sys_read w fd n)) = files w"
  "can_alloc (fst (sys_read w fd n)) = can_alloc w"
  by (simp_all add: sys_read_def Let_def split: option.splits)

theorem short_read_continues_witness:
  "\<not> snd (decode_spr (example_world [''a.spr'' \<mapsto> [2, 2, 1, 1, 1, 7]]) ''a.spr'' grey_palette) \<and>
   stderr_log (fst (decode_spr (example_world [''a.spr'' \<mapsto> [2, 2, 1, 1, 1, 7]]) ''a.spr''
                      grey_palette)) =
     [Failed_to_read_pixel_data 2 ''a.spr'', Failed_to_read_pixel_data 1 ''a.spr''] \<and>
   files (fst (decode_spr (example_world [''a.spr'' \<mapsto> [2, 2, 1, 1, 1, 7]]) ''a.spr''
                 grey_palette)) =
     [''a.spr'' \<mapsto> [2, 2, 1, 1, 1, 7]]"
proof -
  define A :: "byte list" where "A = [2, 2, 1, 1, 1, 7]"
  define W where "W = example_world [''a.spr'' \<mapsto> A]"
  define whd where "whd = [\<lparr>width = 2, height = 1\<rparr>, \<lparr>width = 1, height = 1 :: byte\<rparr>]"
  define W4 where "W4 = after_header W ''a.spr'' 2"
  have src: "files W ''a.spr'' = Some (2 # [2, 1, 1, 1, 7])"
    and pos: "0 < lowest_free (fds W)"
    and alloc: "can_alloc W (2 * unat (2 :: byte))"
    and len: "2 * unat (2 :: byte) \<le> length [2, 1, 1, 1, 7 :: byte]"
    by (simp_all add: W_def A_def example_world_def)
  note H = decode_spr_header [OF src pos alloc len]
  have fd: "lowest_free (fds W) = 3" by (simp add: W_def example_world_def)
  have dec: "decode_spr W ''a.spr'' grey_palette = sprite_loop W4 3 ''a.spr'' grey_palette whd 2 0 True"
    using H(1) [of grey_palette] by (simp add: fd W4_def whd_def)
  have rd4: "reading W4 3 ''a.spr'' A 5"
    using H(2) by (simp add: fd W4_def A_def)
  have e0: "whd ! 0 = \<lparr>width = 2, height = 1\<rparr>"
    and e1: "whd ! 1 = \<lparr>width = 1, height = 1\<rparr>" "whd ! Suc 0 = \<lparr>width = 1, height = 1\<rparr>"
    by (simp_all add: whd_def)
  have pc0: "pixel_count \<lparr>width = 2, height = 1\<rparr> = 2" and pc1: "pixel_count \<lparr>width = 1, height = 1\<rparr> = 1"
    and ne0: "nonempty \<lparr>width = 2, height = 1\<rparr>" and ne1: "nonempty \<lparr>width = 1, height = 1\<rparr>"
    by (simp_all add: pixel_count_def nonempty_def)
  define W5 where "W5 = eprintf (fst (sys_read W4 3 2)) (Failed_to_read_pixel_data 2 ''a.spr'')"
  define W6 where "W6 = eprintf (fst (sys_read W5 3 1)) (Failed_to_read_pixel_data 1 ''a.spr'')"
  have r4: "sys_read W4 3 2 =
      (W4\<lparr>fds := (fds W4)[3 := Some \<lparr>of_path = ''a.spr'', of_pos = 6\<rparr>]\<rparr>, 1, [7])"
    using sys_read_reading [OF rd4, of 2] by (simp add: A_def)
  have rd5: "reading W5 3 ''a.spr'' A 6"
    using reading_after_read [OF rd4, of 6] by (simp add: W5_def r4)
  have r5: "sys_read W5 3 (Suc 0) =
      (W5\<lparr>fds := (fds W5)[3 := Some \<lparr>of_path = ''a.spr'', of_pos = 6\<rparr>]\<rparr>, 0, [])"
    using sys_read_reading [OF rd5, of "Suc 0"] by (simp add: A_def)
  have a4: "can_alloc W4 2"
    using H(3) by (simp add: same_env_def W4_def W_def example_world_def)
  then have a5: "can_alloc W5 1"
    by (simp add: W5_def eprintf_def sys_read_frame W4_def after_header_def W_def example_world_def)
  have "(0 :: byte) < 2 \<and> nonempty (whd ! unat (0 :: byte)) \<and>
      can_alloc W4 (pixel_count (whd ! unat (0 :: byte))) \<and>
      fst (snd (sys_read W4 3 (pixel_count (whd ! unat (0 :: byte))))) \<noteq>
        int (pixel_count (whd ! unat (0 :: byte)))"
    using a4 by (simp add: e0 pc0 ne0 r4)
  with short_read_continues [of 0 2 whd W4 3 "''a.spr''" grey_palette True]
  have s0: "sprite_loop W4 3 ''a.spr'' grey_palette whd 2 0 True =
      sprite_loop W5 3 ''a.spr'' grey_palette whd 2 1 False"
    by (simp add: e0 pc0 W5_def)
  have "(1 :: byte) < 2 \<and> nonempty (whd ! unat (1 :: byte)) \<and>
      can_alloc W5 (pixel_count (whd ! unat (1 :: byte))) \<and>
      fst (snd (sys_read W5 3 (pixel_count (whd ! unat (1 :: byte))))) \<noteq>
        int (pixel_count (whd ! unat (1 :: byte)))"
    using a5 by (simp add: e1 pc1 ne1 r5)
  with short_read_continues [of 1 2 whd W5 3 "''a.spr''" grey_palette False]
  have s1: "sprite_loop W5 3 ''a.spr'' grey_palette whd 2 1 False =
      sprite_loop W6 3 ''a.spr'' grey_palette whd 2 2 False"
    by (simp add: e1 pc1 W6_def)
  have "decode_spr W ''a.spr'' grey_palette = (W6, False)"
    by (simp add: dec s0 s1 sprite_loop_done)
  moreover have "stderr_log W6 =
      [Failed_to_read_pixel_data 2 ''a.spr'', Failed_to_read_pixel_data 1 ''a.spr'']"
    using H(5) by (simp add: W6_def W5_def eprintf_def sys_read_frame W4_def W_def example_world_def)
  moreover have "files W6 = [''a.spr'' \<mapsto> A]"
    using H(4) by (simp add: W6_def W5_def eprintf_def sys_read_frame W4_def W_def example_world_def)
  ultimately show ?thesis
    by (simp add: W_def A_def)
qed

subsection \<open>Descriptors left open\<close>

lemma sys_read_keeps_open:
  "still_open w fd' \<Longrightarrow> still_open (fst (sys_read w fd c)) fd'"
  by (auto simp: still_open_def sys_read_def Let_def fd_lookup_update split: option.splits)

lemma write_ppm_descriptors:
  "fd_lookup (fds (fst (write_ppm w f i pal data wd ht))) fd = fd_lookup (fds w) fd"
  by (simp add: write_ppm_cases eprintf_def)

lemma still_open_eprintf [simp]: "still_open (eprintf w m) fd = still_open w fd"
  by (simp add: still_open_def eprintf_def)

lemma still_open_printf [simp]: "still_open (printf w m) fd = still_open w fd"
  by (simp add: still_open_def printf_def)

lemma still_open_write_ppm [simp]:
  "still_open (fst (write_ppm w f i pal data wd ht)) fd = still_open w fd"
  by (simp add: still_open_def write_ppm_descriptors)

lemma decode_sprite_keeps_open:
  "still_open w fd' \<Longrightarrow> still_open (fst (decode_sprite w fd f pal e i st)) fd'"
  by (simp add: decode_sprite_unfold sys_read_keeps_open)

lemma sprite_loop_keeps_open:
  "still_open w fd' \<Longrightarrow> still_open (fst (sprite_loop w fd f pal whd num i st)) fd'"
proof (induction w fd f pal whd num i st rule: sprite_loop.induct)
  case (1 w fd f pal whd num i st)
  show ?case
  proof (cases "i < num")
    case False
    with "1.prems" show ?thesis by (simp add: sprite_loop_done)
  next
    case True
    obtain w' st' where d: "decode_sprite w fd f pal (whd ! unat i) i st = (w', st')"
      by fastforce
    from decode_sprite_keeps_open [OF "1.prems", of fd f pal "whd ! unat i" i st] d
    have "still_open w' fd'" by simp
    from "1.IH" [OF True d [symmetric] this] True d show ?thesis
      by (simp add: sprite_loop_step)
  qed
qed

lemma decode_spr_keeps_open:
  assumes "files w f = Some arc" and "0 < lowest_free (fds w)"
  shows "still_open (fst (decode_spr w f pal)) (int (lowest_free (fds w)))"
proof -
  define n where "n = lowest_free (fds w)"
  define w1 where "w1 = w\<lparr>fds := install (fds w) n \<lparr>of_path = f, of_pos = 0\<rparr>\<rparr>"
  have o: "sys_open w f = (w1, int n)"
    using assms by (simp add: sys_open_ok w1_def n_def)
  have l1: "still_open w1 (int n)"
    by (simp add: still_open_def w1_def n_def fd_lookup_install)
  obtain w2 k got where r1: "sys_read w1 (int n) (Suc 0) = (w2, k, got)"
    using prod_cases3 by blast
  have l2: "still_open w2 (int n)"
    using sys_read_keeps_open [OF l1, of "int n" "Suc 0"] by (simp add: r1)
  define c :: byte where "c = (case got of [] \<Rightarrow> 0 | x # xs \<Rightarrow> x)"
  define w3 where "w3 = printf w2 (Number_of_sprites (unat c))"
  have l3: "still_open w3 (int n)"
    using l2 by (simp add: w3_def)
  obtain w4 m header where r3: "sys_read w3 (int n) (unat c * 2) = (w4, m, header)"
    using prod_cases3 by blast
  have l4: "still_open w4 (int n)"
    using sys_read_keeps_open [OF l3, of "int n" "unat c * 2"] by (simp add: r3)
  have "decode_spr w f pal =
      (if k = 1
       then if can_alloc w3 (unat c * 2)
            then if m = int (unat c * 2)
                 then sprite_loop w4 (int n) f pal (as_pairs header) c 0 True
                 else (eprintf w4 (Failed_to_read_header (unat c * 2) f), False)
            else (eprintf w3 (Failed_to_allocate_header (unat c * 2)), False)
       else (eprintf w2 (Failed_to_read_sprite_count f), False))"
    using assms(2)
    by (simp add: decode_spr_def o n_def [symmetric] r1 c_def [symmetric] Let_def
          w3_def [symmetric] r3)
  with l2 l3 l4 show ?thesis
    by (simp add: n_def [symmetric] sprite_loop_keeps_open)
qed

text \<open>
  Claim C7. \<open>read_palette\<close> (on a positive descriptor) and \<open>write_ppm\<close> leave every
  descriptor as they found it: what they opened is closed again on every path. The same
  is not true of \<open>decode_spr\<close>: whenever the archive opens on a positive descriptor,
  that descriptor, free before the call, is still open when \<open>decode_spr\<close> returns,
  whatever path the function took. The function has no \<open>close\<close>.
\<close>

theorem decode_spr_leaves_descriptor_open:
  "(files w f = Some arc \<and> 0 < lowest_free (fds w) \<longrightarrow>
      fd_lookup (fds w) (int (lowest_free (fds w))) = None \<and>
      fd_lookup (fds (fst (decode_spr w f pal))) (int (lowest_free (fds w))) \<noteq> None) \<and>
   (files w f = Some arc \<and> 0 < lowest_free (fds w) \<longrightarrow>
      (\<forall>fd. fd_lookup (fds (fst (read_palette w f buf))) fd = fd_lookup (fds w) fd)) \<and>
   (\<forall>fd. fd_lookup (fds (fst (write_ppm w f i pal data wd ht))) fd = fd_lookup (fds w) fd)"
proof (intro conjI impI allI)
  assume "files w f = Some arc \<and> 0 < lowest_free (fds w)"
  then have "still_open (fst (decode_spr w f pal)) (int (lowest_free (fds w)))"
    by (auto intro: decode_spr_keeps_open)
  then show "fd_lookup (fds (fst (decode_spr w f pal))) (int (lowest_free (fds w))) \<noteq> None"
    by (simp add: still_open_def)
next
  show "fd_lookup (fds w) (int (lowest_free (fds w))) = None"
    by simp
next
  fix fd
  assume "files w f = Some arc \<and> 0 < lowest_free (fds w)"
  then show "fd_lookup (fds (fst (read_palette w f buf))) fd = fd_lookup (fds w) fd"
    by (cases "seekable w f") (simp_all add: read_palette_seekable read_palette_pipe)
next
  fix fd
  show "fd_lookup (fds (fst (write_ppm w f i pal data wd ht))) fd = fd_lookup (fds w) fd"
    by (rule write_ppm_descriptors)
qed

theorem decode_spr_leaves_descriptor_open_witness:
  "files (example_world [''a.spr'' \<mapsto> [0]]) ''a.spr'' = Some [0] \<and>
   0 < lowest_free (fds (example_world [''a.spr'' \<mapsto> [0]])) \<and>
   fd_lookup (fds (example_world [''a.spr'' \<mapsto> [0]])) 3 = None \<and>
   snd (decode_spr (example_world [''a.spr'' \<mapsto> [0]]) ''a.spr'' grey_palette) \<and>
   fd_lookup (fds (fst (decode_spr (example_world [''a.spr'' \<mapsto> [0]]) ''a.spr'' grey_palette))) 3
     \<noteq> None"
proof -
  define W where "W = example_world [''a.spr'' \<mapsto> [0]]"
  have 1: "files W ''a.spr'' = Some [0]" and 2: "0 < lowest_free (fds W)"
    and 3: "can_alloc W 0" and fd: "lowest_free (fds W) = 3"
    by (simp_all add: W_def example_world_def)
  from decode_spr_count_zero [OF 1 2 3, of grey_palette]
  have ok: "snd (decode_spr W ''a.spr'' grey_palette)" by simp
  from decode_spr_leaves_descriptor_open [of W "''a.spr''" "[0]" grey_palette] 1 2
  have "fd_lookup (fds W) 3 = None \<and>
      fd_lookup (fds (fst (decode_spr W ''a.spr'' grey_palette))) 3 \<noteq> None"
    by (simp add: fd)
  with 1 2 ok show ?thesis
    by (simp only: W_def) simp
qed

subsection \<open>The length of the output name\<close>

text \<open>
  Claim C8, as amended. \<open>write_ppm\<close> has no error for a name that is too long. The name
  it opens is the first 30 characters of \<open><basename>_<NNN>.ppm\<close>, cut without notice when
  the full name is longer; the result is success exactly when that file can be opened,
  and the image is then in the file of the cut name.
\<close>

theorem write_ppm_name_cut:
  "ppm_name filename_base sprite_index = take 30 (ppm_name_full filename_base sprite_index) \<and>
   snd (write_ppm w filename_base sprite_index pal data wd ht) =
     creatable w (take 30 (ppm_name_full filename_base sprite_index)) \<and>
   files (fst (write_ppm w filename_base sprite_index pal data wd ht))
       (take 30 (ppm_name_full filename_base sprite_index)) =
     (if creatable w (take 30 (ppm_name_full filename_base sprite_index))
      then Some (if accepts_writes w (take 30 (ppm_name_full filename_base sprite_index))
                 then bytes_of (ppm_text pal data (unat wd) (unat ht)) else [])
      else files w (take 30 (ppm_name_full filename_base sprite_index)))"
proof -
  have "ppm_name filename_base sprite_index = take 30 (ppm_name_full filename_base sprite_index)"
    by (simp add: ppm_name_def ppm_name_full_def snprintf_def MAX_FILENAME_LEN_def)
  then show ?thesis
    by (simp add: write_ppm_cases eprintf_def)
qed

theorem write_ppm_name_cut_counterexample:
  "31 < length (ppm_name_full ''aaaaaaaaaaaaaaaaaaaaaaaa'' 0) \<and>
   snd (write_ppm (example_world Map.empty) ''aaaaaaaaaaaaaaaaaaaaaaaa'' 0 grey_palette [0] 1 1) \<and>
   stderr_log (fst (write_ppm (example_world Map.empty) ''aaaaaaaaaaaaaaaaaaaaaaaa'' 0
                      grey_palette [0] 1 1)) = [] \<and>
   files (fst (write_ppm (example_world Map.empty) ''aaaaaaaaaaaaaaaaaaaaaaaa'' 0
                 grey_palette [0] 1 1)) (ppm_name_full ''aaaaaaaaaaaaaaaaaaaaaaaa'' 0) = None \<and>
   files (fst (write_ppm (example_world Map.empty) ''aaaaaaaaaaaaaaaaaaaaaaaa'' 0
                 grey_palette [0] 1 1)) ''aaaaaaaaaaaaaaaaaaaaaaaa_000.p'' =
     Some (bytes_of (ppm_text grey_palette [0] 1 1))"
proof -
  have full: "ppm_name_full ''aaaaaaaaaaaaaaaaaaaaaaaa'' 0 = ''aaaaaaaaaaaaaaaaaaaaaaaa_000.ppm''"
    by (simp add: ppm_name_full_def dec03_def dec.simps digit_def replicate2)
  have name: "ppm_name ''aaaaaaaaaaaaaaaaaaaaaaaa'' 0 = ''aaaaaaaaaaaaaaaaaaaaaaaa_000.p''"
    by (simp add: ppm_name_def snprintf_def MAX_FILENAME_LEN_def dec03_def dec.simps digit_def
          replicate2)
  show ?thesis
    by (simp add: write_ppm_cases name full) (simp add: example_world_def)
qed

end
